theory Spec2Isabelle
  imports Main "HOL-Library.Word" "HOL-Library.Code_Target_Numeral"
begin

section \<open>JavaScript strings\<close>

text \<open>
  A JavaScript string is a sequence of UTF-16 code units. The scanner \<^verbatim>\<open>scan.js\<close> compares
  strings code unit by code unit (\<^verbatim>\<open>includes\<close>, \<^verbatim>\<open>split\<close>, \<^verbatim>\<open>trim\<close>), and
  \<^verbatim>\<open>encodeURIComponent\<close> distinguishes surrogates, so strings are lists of 16-bit words.
  \<open>ascii\<close> embeds an ASCII literal.
\<close>

type_synonym jsstring = "16 word list"

definition ascii :: "string \<Rightarrow> jsstring" where
  "ascii s = map of_char s"

text \<open>An exception object, as far as the program looks at it: its \<^verbatim>\<open>name\<close> and its \<^verbatim>\<open>message\<close>.\<close>

record js_error =
  name :: jsstring
  message :: jsstring

text \<open>\<^verbatim>\<open>String.prototype.includes(t)\<close>: \<open>t\<close> occurs in \<open>s\<close> as a contiguous run of code units.\<close>

fun String_includes :: "jsstring \<Rightarrow> jsstring \<Rightarrow> bool" where
  "String_includes [] t = (t = [])"
| "String_includes (c # cs) t = (take (length t) (c # cs) = t \<or> String_includes cs t)"

text \<open>Decimal rendering of a non-negative integer (\<^verbatim>\<open>Number::toString\<close> below \<open>10\<^sup>2\<^sup>1\<close>).\<close>

fun decimal :: "nat \<Rightarrow> jsstring" where
  "decimal n = (if n < 10 then [48 + of_nat n] else decimal (n div 10) @ [48 + of_nat (n mod 10)])"

declare decimal.simps [simp del]

subsection \<open>encodeURIComponent\<close>

text \<open>
  ECMA-262 \<^verbatim>\<open>Encode(string, unreserved)\<close> with the unreserved set of
  \<^verbatim>\<open>encodeURIComponent\<close>: ASCII letters, digits and \<^verbatim>\<open>- _ . ! ~ * ' ( )\<close> are kept; every
  other code point is written as the percent-escaped octets of its UTF-8 encoding; an unpaired
  surrogate raises \<^verbatim>\<open>URIError\<close>.
\<close>

definition URIError :: js_error where
  "URIError = \<lparr>name = ascii ''URIError'', message = ascii ''URI malformed''\<rparr>"

definition uriUnreserved :: "16 word \<Rightarrow> bool" where
  "uriUnreserved c =
     ((65 \<le> c \<and> c \<le> 90) \<or> (97 \<le> c \<and> c \<le> 122) \<or> (48 \<le> c \<and> c \<le> 57)
      \<or> c \<in> {45, 95, 46, 33, 126, 42, 39, 40, 41})"

definition isLeadSurrogate :: "16 word \<Rightarrow> bool" where
  "isLeadSurrogate c = (0xD800 \<le> c \<and> c \<le> 0xDBFF)"

definition isTrailSurrogate :: "16 word \<Rightarrow> bool" where
  "isTrailSurrogate c = (0xDC00 \<le> c \<and> c \<le> 0xDFFF)"

definition utf8 :: "nat \<Rightarrow> nat list" where
  "utf8 cp =
     (if cp < 0x80 then [cp]
      else if cp < 0x800 then [0xC0 + cp div 64, 0x80 + cp mod 64]
      else if cp < 0x10000 then [0xE0 + cp div 4096, 0x80 + (cp div 64) mod 64, 0x80 + cp mod 64]
      else [0xF0 + cp div 262144, 0x80 + (cp div 4096) mod 64, 0x80 + (cp div 64) mod 64,
            0x80 + cp mod 64])"

definition hexDigit :: "nat \<Rightarrow> 16 word" where
  "hexDigit n = (if n < 10 then 48 + of_nat n else 55 + of_nat n)"

definition percentOctets :: "nat list \<Rightarrow> jsstring" where
  "percentOctets bs = concat (map (\<lambda>b. [37, hexDigit (b div 16), hexDigit (b mod 16)]) bs)"

definition andThen :: "jsstring \<Rightarrow> js_error + jsstring \<Rightarrow> js_error + jsstring" where
  "andThen pre r = (case r of Inl e \<Rightarrow> Inl e | Inr s \<Rightarrow> Inr (pre @ s))"

fun encodeURIComponent :: "jsstring \<Rightarrow> js_error + jsstring" where
  "encodeURIComponent [] = Inr []"
| "encodeURIComponent (c # cs) =
     (if uriUnreserved c then andThen [c] (encodeURIComponent cs)
      else if isTrailSurrogate c then Inl URIError
      else if isLeadSurrogate c then
        (case cs of
           [] \<Rightarrow> Inl URIError
         | d # ds \<Rightarrow>
             if isTrailSurrogate d
             then andThen
                    (percentOctets (utf8 ((unat c - 0xD800) * 0x400 + (unat d - 0xDC00) + 0x10000)))
                    (encodeURIComponent ds)
             else Inl URIError)
      else andThen (percentOctets (utf8 (unat c))) (encodeURIComponent cs))"

text \<open>\<^verbatim>\<open>String.prototype.isWellFormed\<close>: no unpaired surrogate.\<close>

fun isWellFormed :: "jsstring \<Rightarrow> bool" where
  "isWellFormed [] = True"
| "isWellFormed [c] = (\<not> isLeadSurrogate c \<and> \<not> isTrailSurrogate c)"
| "isWellFormed (c # d # ds) =
     (if isLeadSurrogate c then isTrailSurrogate d \<and> isWellFormed ds
      else \<not> isTrailSurrogate c \<and> isWellFormed (d # ds))"

section \<open>buildUrl\<close>

text \<open>
  \<^verbatim>\<open>const host = server.includes(':') ? server : `${server}:${DEFAULT_PORT}`;\<close>
  \<^verbatim>\<open>return `http://${host}/claimable_balances?claimant=${encodeURIComponent(wallet)}`;\<close>
  The only operation that can throw is \<^verbatim>\<open>encodeURIComponent\<close>.
\<close>

definition DEFAULT_PORT :: nat where
  "DEFAULT_PORT = 31401"

definition TIMEOUT_MS :: nat where
  "TIMEOUT_MS = 7000"

definition buildUrl :: "jsstring \<Rightarrow> jsstring \<Rightarrow> js_error + jsstring" where
  "buildUrl server wallet =
     (let host = (if String_includes server (ascii '':'') then server
                  else server @ ascii '':'' @ decimal DEFAULT_PORT)
      in andThen (ascii ''http://'' @ host @ ascii ''/claimable_balances?claimant='')
           (encodeURIComponent wallet))"

section \<open>JavaScript values\<close>

text \<open>
  The values \<^verbatim>\<open>JSON.parse\<close> returns, and \<^verbatim>\<open>undefined\<close>, which reading a missing property
  gives. A Number is an IEEE 754 double: \<open>Finite neg n p\<close> is \<open>\<plusminus> n \<sqdot> 2\<^sup>p\<close> (with \<open>n = 0\<close> for the
  two zeros), \<open>Infinite neg\<close> is \<open>\<plusminus>\<infinity>\<close>; the program performs no arithmetic, so NaN never
  arises. An object is the list of its own properties in source order; a later duplicate
  key overrides an earlier one.
\<close>

datatype number = Finite bool nat int | Infinite bool

datatype jsvalue =
    JSUndefined
  | JSNull
  | JSBoolean bool
  | JSNumber number
  | JSString jsstring
  | JSArray "jsvalue list"
  | JSObject "(jsstring \<times> jsvalue) list"

subsection \<open>Doubles: rounding a decimal literal, printing a double\<close>

text \<open>
  Positive rationals are fractions \<open>(a, b)\<close> of naturals, \<open>b > 0\<close>. \<open>roundToDouble\<close> is
  round-to-nearest, ties-to-even, to 53 significant bits with exponents down to \<open>-1074\<close>;
  \<open>None\<close> is overflow.
\<close>

definition decimalFraction :: "nat \<Rightarrow> int \<Rightarrow> nat \<times> nat" where
  "decimalFraction m e = (if 0 \<le> e then (m * 10 ^ nat e, 1) else (m, 10 ^ nat (- e)))"

definition scale :: "nat \<Rightarrow> nat \<times> nat \<Rightarrow> int \<Rightarrow> nat \<times> nat" where
  "scale base q k =
     (if 0 \<le> k then (fst q * base ^ nat k, snd q) else (fst q, snd q * base ^ nat (- k)))"

fun digitCount :: "nat \<Rightarrow> nat \<Rightarrow> nat" where
  "digitCount base n =
     (if n = 0 \<or> base < 2 then 0 else Suc (digitCount base (n div base)))"

declare digitCount.simps [simp del]

text \<open>\<open>floorLog base q\<close> is \<open>\<lfloor>log\<^bsub>base\<^esub> (a / b)\<rfloor>\<close> for a positive fraction.\<close>

definition floorLog :: "nat \<Rightarrow> nat \<times> nat \<Rightarrow> int" where
  "floorLog base q =
     (let est = int (digitCount base (fst q)) - int (digitCount base (snd q));
          q' = scale base q (- est)
      in if snd q' \<le> fst q' then est else est - 1)"

definition roundHalfEven :: "nat \<times> nat \<Rightarrow> nat" where
  "roundHalfEven q =
     (let n = fst q div snd q; r = fst q mod snd q
      in if 2 * r < snd q then n
         else if snd q < 2 * r then n + 1
         else if even n then n else n + 1)"

definition roundToDouble :: "nat \<times> nat \<Rightarrow> (nat \<times> int) option" where
  "roundToDouble q =
     (if fst q = 0 then Some (0, 0)
      else
        let p = max (floorLog 2 q - 52) (- 1074);
            n = roundHalfEven (scale 2 q (- p))
        in if n = 0 then Some (0, 0)
           else if 971 < p \<or> (p = 971 \<and> n = 2 ^ 53) then None
           else if n = 2 ^ 53 then Some (2 ^ 52, p + 1)
           else Some (n, p))"

text \<open>\<^verbatim>\<open>StringToNumber\<close> on a JSON number literal with digits \<open>m\<close> and decimal exponent \<open>e\<close>.\<close>

definition StringToNumber :: "bool \<Rightarrow> nat \<Rightarrow> int \<Rightarrow> number" where
  "StringToNumber neg m e =
     (case roundToDouble (decimalFraction m e) of
        None \<Rightarrow> Infinite neg
      | Some (n, p) \<Rightarrow> Finite neg n p)"

text \<open>
  \<^verbatim>\<open>Number::toString\<close>: the least number \<open>k\<close> of digits \<open>s\<close> with \<open>s \<sqdot> 10\<^bsup>n-k\<^esup>\<close> rounding back
  to the double, the closest such \<open>s\<close>, then the layout rules (plain digits up to
  \<open>10\<^sup>2\<^sup>1\<close>, leading zeros down to \<open>10\<^sup>-\<^sup>6\<close>, exponent form beyond).
\<close>

definition digitsFor :: "nat \<Rightarrow> int \<Rightarrow> nat \<Rightarrow> (nat \<times> int) option" where
  "digitsFor n p k =
     (let x = scale 2 (n, 1) p;
          n10 = floorLog 10 x + 1;
          q = scale 10 x (int k - n10);
          near = roundHalfEven q;
          lo = fst q div snd q;
          far = (if near = lo then lo + 1 else lo);
          norm = (\<lambda>s. if s = 10 ^ k then (10 ^ (k - 1), n10 + 1) else (s, n10));
          ok = (\<lambda>c. roundToDouble (decimalFraction (fst c) (snd c - int k)) = Some (n, p))
      in if ok (norm near) then Some (norm near)
         else if ok (norm far) then Some (norm far)
         else None)"

function shortestFrom :: "nat \<Rightarrow> int \<Rightarrow> nat \<Rightarrow> nat \<times> nat \<times> int" where
  "shortestFrom n p k =
     (case digitsFor n p k of
        Some d \<Rightarrow> (k, d)
      | None \<Rightarrow> if 17 \<le> k then (1, 0, 1) else shortestFrom n p (Suc k))"
  by pat_completeness auto

termination
  by (relation "measure (\<lambda>(n, p, k). 17 - k)") auto

declare shortestFrom.simps [simp del]

definition shortestDigits :: "nat \<Rightarrow> int \<Rightarrow> nat \<times> nat \<times> int" where
  "shortestDigits n p = shortestFrom n p 1"

definition layout :: "nat \<times> nat \<times> int \<Rightarrow> jsstring" where
  "layout d =
     (let k = int (fst d); ds = decimal (fst (snd d)); n = snd (snd d)
      in if k \<le> n \<and> n \<le> 21 then ds @ replicate (nat (n - k)) 48
         else if 0 < n \<and> n \<le> 21 then take (nat n) ds @ [46] @ drop (nat n) ds
         else if - 6 < n \<and> n \<le> 0 then [48, 46] @ replicate (nat (- n)) 48 @ ds
         else
           let e = n - 1;
               ex = [101, if e < 0 then 45 else 43] @ decimal (nat \<bar>e\<bar>)
           in if k = 1 then ds @ ex else take 1 ds @ [46] @ drop 1 ds @ ex)"

fun Number_toString :: "number \<Rightarrow> jsstring" where
  "Number_toString (Infinite neg) = (if neg then [45] else []) @ ascii ''Infinity''"
| "Number_toString (Finite neg n p) =
     (if n = 0 then [48]
      else (if neg then [45] else []) @ layout (shortestDigits n p))"

subsection \<open>ToBoolean, ToString, property access\<close>

fun ToBoolean :: "jsvalue \<Rightarrow> bool" where
  "ToBoolean JSUndefined = False"
| "ToBoolean JSNull = False"
| "ToBoolean (JSBoolean b) = b"
| "ToBoolean (JSNumber (Finite neg n p)) = (n \<noteq> 0)"
| "ToBoolean (JSNumber (Infinite neg)) = True"
| "ToBoolean (JSString s) = (s \<noteq> [])"
| "ToBoolean (JSArray xs) = True"
| "ToBoolean (JSObject ms) = True"

text \<open>\<^verbatim>\<open>Array.prototype.join\<close> with separator \<^verbatim>\<open>","\<close>, on the strings of the elements.\<close>

fun joinComma :: "jsstring list \<Rightarrow> jsstring" where
  "joinComma [] = []"
| "joinComma [s] = s"
| "joinComma (s # t # ts) = s @ [44] @ joinComma (t # ts)"

text \<open>
  \<^verbatim>\<open>ToString\<close>, as a template literal applies it; \<open>None\<close> is the \<^verbatim>\<open>TypeError\<close> it throws.
  An object goes through \<^verbatim>\<open>OrdinaryToPrimitive\<close>, which calls its \<^verbatim>\<open>toString\<close>: inherited from
  \<^verbatim>\<open>Object.prototype\<close> it gives \<^verbatim>\<open>[object Object]\<close>; an own property \<^verbatim>\<open>toString\<close>, which in
  a parsed JSON value is never callable, hides the inherited method, \<^verbatim>\<open>valueOf\<close> returns the
  object itself, and the conversion throws. An array prints its elements joined by commas,
  \<^verbatim>\<open>null\<close> and \<^verbatim>\<open>undefined\<close> elements as the empty string, and throws when an element does.
\<close>

fun allSome :: "'a option list \<Rightarrow> 'a list option" where
  "allSome [] = Some []"
| "allSome (None # xs) = None"
| "allSome (Some x # xs) = map_option ((#) x) (allSome xs)"

fun ToString :: "jsvalue \<Rightarrow> jsstring option" where
  "ToString JSUndefined = Some (ascii ''undefined'')"
| "ToString JSNull = Some (ascii ''null'')"
| "ToString (JSBoolean b) = Some (if b then ascii ''true'' else ascii ''false'')"
| "ToString (JSNumber x) = Some (Number_toString x)"
| "ToString (JSString s) = Some s"
| "ToString (JSArray xs) =
     map_option joinComma
       (allSome (map (\<lambda>x. if x = JSUndefined \<or> x = JSNull then Some [] else ToString x) xs))"
| "ToString (JSObject ms) =
     (if ascii ''toString'' \<in> set (map fst ms) then None else Some (ascii ''[object Object]''))"

text \<open>
  Reading property \<open>k\<close> of a value: \<open>None\<close> is the \<^verbatim>\<open>TypeError\<close> that reading a property of
  \<^verbatim>\<open>null\<close> or \<^verbatim>\<open>undefined\<close> throws, \<open>Some JSUndefined\<close> a missing property. The program reads
  only \<^verbatim>\<open>_embedded\<close>, \<^verbatim>\<open>records\<close>, \<^verbatim>\<open>asset\<close> and \<^verbatim>\<open>amount\<close>; no built-in prototype defines
  one of these, so only an object's own properties can answer.
\<close>

fun Get :: "jsvalue \<Rightarrow> jsstring \<Rightarrow> jsvalue option" where
  "Get JSUndefined k = None"
| "Get JSNull k = None"
| "Get (JSObject ms) k = (case map_of (rev ms) k of None \<Rightarrow> Some JSUndefined | Some v \<Rightarrow> Some v)"
| "Get v k = Some JSUndefined"

fun isArray :: "jsvalue \<Rightarrow> bool" where
  "isArray (JSArray xs) = True"
| "isArray v = False"

fun elements :: "jsvalue \<Rightarrow> jsvalue list" where
  "elements (JSArray xs) = xs"
| "elements v = []"

section \<open>JSON.parse\<close>

text \<open>
  \<^verbatim>\<open>JSON.parse\<close> after ECMA-404 and ECMA-262: a tokenizer, then a pushdown automaton over the
  tokens. \<open>None\<close> is the \<^verbatim>\<open>SyntaxError\<close> it throws.
\<close>

datatype token =
    TLBrace | TRBrace | TLBracket | TRBracket | TColon | TComma
  | TString jsstring | TNumber number | TTrue | TFalse | TNull

definition isDigit :: "16 word \<Rightarrow> bool" where
  "isDigit c = (48 \<le> c \<and> c \<le> 57)"

definition isJSONWhiteSpace :: "16 word \<Rightarrow> bool" where
  "isJSONWhiteSpace c = (c = 9 \<or> c = 10 \<or> c = 13 \<or> c = 32)"

definition hexValue :: "16 word \<Rightarrow> nat option" where
  "hexValue c =
     (if 48 \<le> c \<and> c \<le> 57 then Some (unat c - 48)
      else if 65 \<le> c \<and> c \<le> 70 then Some (unat c - 55)
      else if 97 \<le> c \<and> c \<le> 102 then Some (unat c - 87)
      else None)"

text \<open>The single-character escapes \<^verbatim>\<open>\" \\ \/ \b \f \n \r \t\<close>.\<close>

definition escapeChar :: "16 word \<Rightarrow> 16 word option" where
  "escapeChar e =
     (if e = 34 \<or> e = 92 \<or> e = 47 then Some e
      else if e = 98 then Some 8
      else if e = 102 then Some 12
      else if e = 110 then Some 10
      else if e = 114 then Some 13
      else if e = 116 then Some 9
      else None)"

definition consChar :: "16 word \<Rightarrow> (jsstring \<times> jsstring) option \<Rightarrow> (jsstring \<times> jsstring) option" where
  "consChar c r = (case r of None \<Rightarrow> None | Some (s, rest) \<Rightarrow> Some (c # s, rest))"

text \<open>
  The characters of a string literal after its opening quote: the string and the input left
  after the closing quote.
\<close>

fun lexString :: "jsstring \<Rightarrow> (jsstring \<times> jsstring) option" where
  "lexString [] = None"
| "lexString (c # cs) =
     (if c = 34 then Some ([], cs)
      else if c = 92 then
        (case cs of
           [] \<Rightarrow> None
         | e # es \<Rightarrow>
             if e = 117 then
               (case es of
                  h1 # h2 # h3 # h4 # rest \<Rightarrow>
                    (case (hexValue h1, hexValue h2, hexValue h3, hexValue h4) of
                       (Some a, Some b, Some c', Some d) \<Rightarrow>
                         consChar (of_nat (((a * 16 + b) * 16 + c') * 16 + d)) (lexString rest)
                     | _ \<Rightarrow> None)
                | _ \<Rightarrow> None)
             else
               (case escapeChar e of
                  None \<Rightarrow> None
                | Some x \<Rightarrow> consChar x (lexString es)))
      else if c < 32 then None
      else consChar c (lexString cs))"

fun digitsValue :: "nat \<Rightarrow> jsstring \<Rightarrow> nat" where
  "digitsValue acc [] = acc"
| "digitsValue acc (d # ds) = digitsValue (acc * 10 + (unat d - 48)) ds"

text \<open>
  A number literal \<^verbatim>\<open>-? (0 | [1-9][0-9]*) (. [0-9]+)? ([eE] [+-]? [0-9]+)?\<close>: its sign, integer
  digits, fraction digits and exponent, and the input left.
\<close>

definition lexInt :: "jsstring \<Rightarrow> (jsstring \<times> jsstring) option" where
  "lexInt s =
     (case s of
        [] \<Rightarrow> None
      | c # cs \<Rightarrow>
          if c = 48 then Some ([c], cs)
          else if isDigit c then Some (takeWhile isDigit s, dropWhile isDigit s)
          else None)"

definition lexFraction :: "jsstring \<Rightarrow> (jsstring \<times> jsstring) option" where
  "lexFraction s =
     (case s of
        [] \<Rightarrow> Some ([], s)
      | c # cs \<Rightarrow>
          if c = 46 then
            (if takeWhile isDigit cs = [] then None
             else Some (takeWhile isDigit cs, dropWhile isDigit cs))
          else Some ([], s))"

definition lexExponent :: "jsstring \<Rightarrow> (int \<times> jsstring) option" where
  "lexExponent s =
     (case s of
        [] \<Rightarrow> Some (0, s)
      | c # cs \<Rightarrow>
          if c = 101 \<or> c = 69 then
            (let neg = (cs \<noteq> [] \<and> hd cs = 45);
                 ds = (if cs \<noteq> [] \<and> (hd cs = 43 \<or> hd cs = 45) then tl cs else cs)
             in if takeWhile isDigit ds = [] then None
                else Some ((if neg then - 1 else 1) * int (digitsValue 0 (takeWhile isDigit ds)),
                           dropWhile isDigit ds))
          else Some (0, s))"

definition lexNumber :: "jsstring \<Rightarrow> (number \<times> jsstring) option" where
  "lexNumber s =
     (let neg = (s \<noteq> [] \<and> hd s = 45);
          s1 = (if neg then tl s else s)
      in case lexInt s1 of
           None \<Rightarrow> None
         | Some (ip, s2) \<Rightarrow>
             (case lexFraction s2 of
                None \<Rightarrow> None
              | Some (fp, s3) \<Rightarrow>
                  (case lexExponent s3 of
                     None \<Rightarrow> None
                   | Some (ex, s4) \<Rightarrow>
                       Some (StringToNumber neg (digitsValue 0 (ip @ fp)) (ex - int (length fp)),
                             s4))))"

definition consToken :: "token \<Rightarrow> token list option \<Rightarrow> token list option" where
  "consToken t r = map_option ((#) t) r"

lemma consChar_shorter:
  "consChar c r = Some (s, rest) \<Longrightarrow> \<exists>s'. r = Some (s', rest)"
  by (cases r) (auto simp: consChar_def)

lemma lexString_shorter:
  "lexString cs = Some (s, rest) \<Longrightarrow> length rest < length cs"
proof (induction "length cs" arbitrary: cs s rule: less_induct)
  case less
  have IH: "length rest < length cs'"
    if "lexString cs' = Some (s', rest)" "length cs' < length cs" for cs' s'
    using less.hyps [OF that(2) that(1)] .
  show ?case
  proof (cases cs)
    case Nil
    with less.prems show ?thesis by simp
  next
    case (Cons c cs1)
    note p = less.prems [unfolded Cons lexString.simps]
    show ?thesis
    proof (cases "c = 34")
      case True
      with p Cons show ?thesis by simp
    next
      case nq: False
      show ?thesis
      proof (cases "c = 92")
        case False
        with nq p obtain s' where "lexString cs1 = Some (s', rest)"
          by (auto split: if_splits dest!: consChar_shorter)
        from IH [OF this] Cons show ?thesis by simp
      next
        case True
        with nq p obtain e es where cs1: "cs1 = e # es"
          by (cases cs1) auto
        note q = p [unfolded cs1]
        show ?thesis
        proof (cases "e = 117")
          case False
          with nq True q obtain s' where "lexString es = Some (s', rest)"
            by (auto split: option.splits dest!: consChar_shorter)
          from IH [OF this] Cons cs1 show ?thesis by simp
        next
          case u: True
          with nq True q obtain h1 h2 h3 h4 more where es: "es = h1 # h2 # h3 # h4 # more"
            by (auto split: list.splits)
          with nq True u q obtain s' where "lexString more = Some (s', rest)"
            by (auto split: option.splits dest!: consChar_shorter)
          from IH [OF this] Cons cs1 es show ?thesis by simp
        qed
      qed
    qed
  qed
qed

lemma lexInt_shorter: "lexInt s = Some (ip, rest) \<Longrightarrow> length rest < length s"
  by (cases s)
     (auto simp: lexInt_def less_Suc_eq_le length_dropWhile_le split: if_splits)

lemma lexFraction_shorter: "lexFraction s = Some (fp, rest) \<Longrightarrow> length rest \<le> length s"
  by (cases s)
     (auto simp: lexFraction_def le_SucI length_dropWhile_le split: if_splits)

lemma lexExponent_shorter: "lexExponent s = Some (ex, rest) \<Longrightarrow> length rest \<le> length s"
proof (cases s)
  case Nil
  assume "lexExponent s = Some (ex, rest)"
  with Nil show ?thesis by (simp add: lexExponent_def)
next
  case (Cons c cs)
  assume a: "lexExponent s = Some (ex, rest)"
  show ?thesis
  proof (cases "c = 101 \<or> c = 69")
    case False
    with a Cons show ?thesis by (auto simp: lexExponent_def)
  next
    case True
    define ds where "ds = (if cs \<noteq> [] \<and> (hd cs = 43 \<or> hd cs = 45) then tl cs else cs)"
    have "length ds \<le> length cs" by (simp add: ds_def)
    moreover from a Cons True have "rest = dropWhile isDigit ds"
      by (auto simp: lexExponent_def Let_def ds_def split: if_splits)
    moreover have "length (dropWhile isDigit ds) \<le> length ds"
      by (rule length_dropWhile_le)
    ultimately show ?thesis using Cons by simp
  qed
qed

lemma lexNumber_shorter:
  assumes "lexNumber s = Some (x, rest)"
  shows "length rest < length s"
proof -
  define s1 where "s1 = (if s \<noteq> [] \<and> hd s = 45 then tl s else s)"
  from assms obtain ip s2 fp s3 ex where
    "lexInt s1 = Some (ip, s2)" "lexFraction s2 = Some (fp, s3)" "lexExponent s3 = Some (ex, rest)"
    by (auto simp: lexNumber_def Let_def s1_def split: option.splits)
  then have "length s2 < length s1" "length s3 \<le> length s2" "length rest \<le> length s3"
    by (auto dest: lexInt_shorter lexFraction_shorter lexExponent_shorter)
  moreover have "length s1 \<le> length s" by (simp add: s1_def)
  ultimately show ?thesis by linarith
qed

function tokenize :: "jsstring \<Rightarrow> token list option" where
  "tokenize [] = Some []"
| "tokenize (c # cs) =
     (if isJSONWhiteSpace c then tokenize cs
      else if c = 123 then consToken TLBrace (tokenize cs)
      else if c = 125 then consToken TRBrace (tokenize cs)
      else if c = 91 then consToken TLBracket (tokenize cs)
      else if c = 93 then consToken TRBracket (tokenize cs)
      else if c = 58 then consToken TColon (tokenize cs)
      else if c = 44 then consToken TComma (tokenize cs)
      else if c = 34 then
        (case lexString cs of
           None \<Rightarrow> None
         | Some (s, rest) \<Rightarrow> consToken (TString s) (tokenize rest))
      else if c = 45 \<or> isDigit c then
        (case lexNumber (c # cs) of
           None \<Rightarrow> None
         | Some (x, rest) \<Rightarrow> consToken (TNumber x) (tokenize rest))
      else if take 4 (c # cs) = ascii ''true'' then consToken TTrue (tokenize (drop 3 cs))
      else if take 5 (c # cs) = ascii ''false'' then consToken TFalse (tokenize (drop 4 cs))
      else if take 4 (c # cs) = ascii ''null'' then consToken TNull (tokenize (drop 3 cs))
      else None)"
  by pat_completeness auto

termination
proof (relation "measure length")
  fix c :: "16 word" and cs x2 s rest
  assume "lexString cs = Some x2" "(s, rest) = x2"
  then show "(rest, c # cs) \<in> measure length"
    using lexString_shorter [of cs s rest] by simp
next
  fix c :: "16 word" and cs x2 and x :: number and rest
  assume "lexNumber (c # cs) = Some x2" "(x, rest) = x2"
  then show "(rest, c # cs) \<in> measure length"
    using lexNumber_shorter [of "c # cs" x rest] by simp
qed simp_all

declare tokenize.simps [simp del]

text \<open>
  The automaton. A frame is an array or an object under construction (its members so far,
  newest first, and for an object the key whose value is being read); the mode says what
  may come next.
\<close>

datatype frame =
    ArrayFrame "jsvalue list"
  | ObjectFrame "(jsstring \<times> jsvalue) list" "jsstring option"

datatype mode =
    WantValue | WantValueOrClose | WantKey | WantKeyOrClose | WantColon | Done jsvalue

definition scalar :: "token \<Rightarrow> jsvalue option" where
  "scalar t =
     (case t of
        TString s \<Rightarrow> Some (JSString s)
      | TNumber x \<Rightarrow> Some (JSNumber x)
      | TTrue \<Rightarrow> Some (JSBoolean True)
      | TFalse \<Rightarrow> Some (JSBoolean False)
      | TNull \<Rightarrow> Some JSNull
      | _ \<Rightarrow> None)"

definition beginValue :: "frame list \<Rightarrow> token \<Rightarrow> (mode \<times> frame list) option" where
  "beginValue st t =
     (if t = TLBracket then Some (WantValueOrClose, ArrayFrame [] # st)
      else if t = TLBrace then Some (WantKeyOrClose, ObjectFrame [] None # st)
      else map_option (\<lambda>v. (Done v, st)) (scalar t))"

definition beginMember :: "frame list \<Rightarrow> token \<Rightarrow> (mode \<times> frame list) option" where
  "beginMember st t =
     (case (st, t) of
        (ObjectFrame ms None # st', TString k) \<Rightarrow> Some (WantColon, ObjectFrame ms (Some k) # st')
      | _ \<Rightarrow> None)"

definition afterValue :: "jsvalue \<Rightarrow> frame list \<Rightarrow> token \<Rightarrow> (mode \<times> frame list) option" where
  "afterValue v st t =
     (case st of
        ArrayFrame acc # st' \<Rightarrow>
          if t = TComma then Some (WantValue, ArrayFrame (v # acc) # st')
          else if t = TRBracket then Some (Done (JSArray (rev (v # acc))), st')
          else None
      | ObjectFrame ms (Some k) # st' \<Rightarrow>
          if t = TComma then Some (WantKey, ObjectFrame ((k, v) # ms) None # st')
          else if t = TRBrace then Some (Done (JSObject (rev ((k, v) # ms))), st')
          else None
      | _ \<Rightarrow> None)"

definition step :: "mode \<Rightarrow> frame list \<Rightarrow> token \<Rightarrow> (mode \<times> frame list) option" where
  "step m st t =
     (case m of
        WantValue \<Rightarrow> beginValue st t
      | WantValueOrClose \<Rightarrow>
          if t = TRBracket then Some (Done (JSArray []), tl st) else beginValue st t
      | WantKey \<Rightarrow> beginMember st t
      | WantKeyOrClose \<Rightarrow>
          if t = TRBrace then Some (Done (JSObject []), tl st) else beginMember st t
      | WantColon \<Rightarrow> if t = TColon then Some (WantValue, st) else None
      | Done v \<Rightarrow> afterValue v st t)"

fun run :: "mode \<Rightarrow> frame list \<Rightarrow> token list \<Rightarrow> jsvalue option" where
  "run m st [] = (case (m, st) of (Done v, []) \<Rightarrow> Some v | _ \<Rightarrow> None)"
| "run m st (t # ts) =
     (case step m st t of
        None \<Rightarrow> None
      | Some (m', st') \<Rightarrow> run m' st' ts)"

definition JSON_parse :: "jsstring \<Rightarrow> jsvalue option" where
  "JSON_parse text =
     (case tokenize text of
        None \<Rightarrow> None
      | Some ts \<Rightarrow> run WantValue [] ts)"

section \<open>The prober\<close>

text \<open>
  The network is the environment. A \<open>fetch\<close> tells, for a URL and the delay of the abort
  timer in milliseconds, how the request ends: the promise of \<^verbatim>\<open>fetch\<close> resolves with a
  response, or the timer fires first and aborts it, or it rejects with an error of its own.
  A response carries its status code and what \<^verbatim>\<open>res.text()\<close> gives: the body, or the error
  it rejects with, or \<open>None\<close> when the body never ends and the promise never settles (the
  timer is cleared once the response has arrived).
\<close>

record response =
  res_status :: nat
  res_text :: "(js_error + jsstring) option"

datatype fetch_outcome = Resolved response | TimerFired | Rejected js_error

type_synonym fetch = "jsstring \<Rightarrow> nat \<Rightarrow> fetch_outcome"

text \<open>\<^verbatim>\<open>res.ok\<close>: the status is in the range 200 to 299.\<close>

definition res_ok :: "response \<Rightarrow> bool" where
  "res_ok res = (200 \<le> res_status res \<and> res_status res \<le> 299)"

text \<open>The \<^verbatim>\<open>DOMException\<close> with which an aborted \<^verbatim>\<open>fetch\<close> rejects.\<close>

definition AbortError :: js_error where
  "AbortError = \<lparr>name = ascii ''AbortError'', message = ascii ''This operation was aborted''\<rparr>"

definition fetchWithTimeout :: "fetch \<Rightarrow> jsstring \<Rightarrow> nat \<Rightarrow> js_error + response" where
  "fetchWithTimeout fetch url timeoutMs =
     (case fetch url timeoutMs of
        Resolved res \<Rightarrow> Inr res
      | TimerFired \<Rightarrow> Inl AbortError
      | Rejected err \<Rightarrow> Inl err)"

datatype probe_status = valid | novalid | timeout

record probe_result =
  status :: probe_status
  details :: jsstring

text \<open>\<^verbatim>\<open>String(err)\<close> for an error object (\<^verbatim>\<open>Error.prototype.toString\<close>).\<close>

definition Error_toString :: "js_error \<Rightarrow> jsstring" where
  "Error_toString err =
     (if name err = [] then message err
      else if message err = [] then name err
      else name err @ ascii '': '' @ message err)"

text \<open>
  The body of the inner \<^verbatim>\<open>try\<close> after \<^verbatim>\<open>JSON.parse\<close>; \<open>None\<close> when reading a property or
  converting the amount to a string throws.
  \<^verbatim>\<open>if (j && j._embedded && Array.isArray(j._embedded.records) && j._embedded.records.length > 0) {\<close>
  \<^verbatim>\<open>  const r = j._embedded.records[0];\<close>
  \<^verbatim>\<open>  if (r.asset && r.amount) return { status: 'valid', details: `amount=${r.amount}` };\<close>
  \<^verbatim>\<open>}\<close>
  \<^verbatim>\<open>return { status: 'novalid', details: 'json but structure mismatch' };\<close>
\<close>

definition mismatch :: probe_result where
  "mismatch = \<lparr>status = novalid, details = ascii ''json but structure mismatch''\<rparr>"

definition inspect :: "jsvalue \<Rightarrow> probe_result option" where
  "inspect j =
     (if \<not> ToBoolean j then Some mismatch
      else case Get j (ascii ''_embedded'') of
        None \<Rightarrow> None
      | Some e \<Rightarrow>
          if \<not> ToBoolean e then Some mismatch
          else case Get e (ascii ''records'') of
            None \<Rightarrow> None
          | Some rs \<Rightarrow>
              if \<not> (isArray rs \<and> length (elements rs) > 0) then Some mismatch
              else
                let r = elements rs ! 0
                in case Get r (ascii ''asset'') of
                  None \<Rightarrow> None
                | Some a \<Rightarrow>
                    if \<not> ToBoolean a then Some mismatch
                    else case Get r (ascii ''amount'') of
                      None \<Rightarrow> None
                    | Some m \<Rightarrow>
                        if ToBoolean m
                        then (case ToString m of
                                None \<Rightarrow> None
                              | Some s \<Rightarrow> Some \<lparr>status = valid, details = ascii ''amount='' @ s\<rparr>)
                        else Some mismatch)"

text \<open>The inner \<^verbatim>\<open>try\<close>/\<^verbatim>\<open>catch\<close>: a \<^verbatim>\<open>SyntaxError\<close> or a \<^verbatim>\<open>TypeError\<close> gives \<^verbatim>\<open>non-json response\<close>.\<close>

definition classifyJson :: "jsstring \<Rightarrow> probe_result" where
  "classifyJson text =
     (case Option.bind (JSON_parse text) inspect of
        None \<Rightarrow> \<lparr>status = novalid, details = ascii ''non-json response''\<rparr>
      | Some r \<Rightarrow> r)"

text \<open>The outer \<^verbatim>\<open>catch\<close>.\<close>

definition onError :: "js_error \<Rightarrow> probe_result" where
  "onError err =
     (if name err = ascii ''AbortError''
      then \<lparr>status = timeout, details = ascii ''fetch timeout''\<rparr>
      else \<lparr>status = timeout,
            details = (if message err \<noteq> [] then message err else Error_toString err)\<rparr>)"

definition classifyText :: "jsstring \<Rightarrow> probe_result" where
  "classifyText text =
     (if String_includes text (ascii ''_embedded'') \<and> String_includes text (ascii ''records'')
      then classifyJson text
      else \<lparr>status = novalid, details = ascii ''no _embedded/records in response''\<rparr>)"

text \<open>\<open>None\<close>: \<^verbatim>\<open>checkUrl\<close> never returns, its \<^verbatim>\<open>await res.text()\<close> never settling.\<close>

definition checkUrl :: "fetch \<Rightarrow> jsstring \<Rightarrow> probe_result option" where
  "checkUrl fetch url =
     (case fetchWithTimeout fetch url TIMEOUT_MS of
        Inl err \<Rightarrow> Some (onError err)
      | Inr res \<Rightarrow>
          if \<not> res_ok res
          then Some \<lparr>status = novalid, details = ascii ''HTTP '' @ decimal (res_status res)\<rparr>
          else case res_text res of
            None \<Rightarrow> None
          | Some (Inl err) \<Rightarrow> Some (onError err)
          | Some (Inr text) \<Rightarrow> Some (classifyText text))"

section \<open>The driver\<close>

subsection \<open>Files and line lists\<close>

text \<open>
  The five files of the working directory. A file holds the string that reading it as UTF-8
  gives; \<open>None\<close> is a file that cannot be read. The disk is part of the environment: it
  tells, for a file, the data and the state of the files, how a write ends: it is done, or
  its promise rejects with an error, or its promise never settles; a write that is not done
  leaves the files as they were. \<open>written\<close> and \<open>appended\<close> are the files after a
  \<^verbatim>\<open>writeFile\<close> and an \<^verbatim>\<open>appendFile\<close> that are done; both create a missing file. The result
  of a write is \<open>None\<close> when its promise never settles.
\<close>

datatype file_name = SERVERS_FILE | WALLETS_FILE | valid_txt | novalid_txt | timeout_txt

type_synonym filesystem = "file_name \<Rightarrow> jsstring option"

datatype write_outcome = Written | Failed js_error | Unsettled

type_synonym disk_outcomes = "file_name \<Rightarrow> jsstring \<Rightarrow> filesystem \<Rightarrow> write_outcome"

definition written :: "filesystem \<Rightarrow> file_name \<Rightarrow> jsstring \<Rightarrow> filesystem" where
  "written fs f s = fs(f \<mapsto> s)"

definition appended :: "filesystem \<Rightarrow> file_name \<Rightarrow> jsstring \<Rightarrow> filesystem" where
  "appended fs f s = fs(f \<mapsto> (case fs f of None \<Rightarrow> s | Some c \<Rightarrow> c @ s))"

definition writeFile ::
  "disk_outcomes \<Rightarrow> filesystem \<Rightarrow> file_name \<Rightarrow> jsstring \<Rightarrow> (js_error + filesystem) option" where
  "writeFile d fs f s =
     (case d f s fs of
        Written \<Rightarrow> Some (Inr (written fs f s))
      | Failed err \<Rightarrow> Some (Inl err)
      | Unsettled \<Rightarrow> None)"

definition appendFile ::
  "disk_outcomes \<Rightarrow> filesystem \<Rightarrow> file_name \<Rightarrow> jsstring \<Rightarrow> (js_error + filesystem) option" where
  "appendFile d fs f s =
     (case d f s fs of
        Written \<Rightarrow> Some (Inr (appended fs f s))
      | Failed err \<Rightarrow> Some (Inl err)
      | Unsettled \<Rightarrow> None)"

text \<open>\<^verbatim>\<open>split(/\r?\n/)\<close>: cut at every line feed, together with a carriage return just before it.\<close>

definition consLine :: "16 word \<Rightarrow> jsstring list \<Rightarrow> jsstring list" where
  "consLine c ls = (case ls of [] \<Rightarrow> [[c]] | l # ls' \<Rightarrow> (c # l) # ls')"

fun String_split :: "jsstring \<Rightarrow> jsstring list" where
  "String_split [] = [[]]"
| "String_split [c] = (if c = 10 then [[], []] else [[c]])"
| "String_split (c # d # ds) =
     (if c = 10 then [] # String_split (d # ds)
      else if c = 13 \<and> d = 10 then [] # String_split ds
      else consLine c (String_split (d # ds)))"

text \<open>
  \<^verbatim>\<open>trim()\<close> removes leading and trailing white space and line terminators: TAB, LF, VT, FF,
  CR, SP, NBSP, the space separators U+1680, U+2000 to U+200A, U+202F, U+205F, U+3000, the
  line and paragraph separators U+2028, U+2029, and U+FEFF.
\<close>

definition isTrimmed :: "16 word \<Rightarrow> bool" where
  "isTrimmed c =
     ((9 \<le> c \<and> c \<le> 13) \<or> c = 0x20 \<or> c = 0xA0 \<or> c = 0x1680 \<or> (0x2000 \<le> c \<and> c \<le> 0x200A)
      \<or> c = 0x2028 \<or> c = 0x2029 \<or> c = 0x202F \<or> c = 0x205F \<or> c = 0x3000 \<or> c = 0xFEFF)"

definition String_trim :: "jsstring \<Rightarrow> jsstring" where
  "String_trim s = rev (dropWhile isTrimmed (rev (dropWhile isTrimmed s)))"

text \<open>\<^verbatim>\<open>raw.split(/\r?\n/).map(s => s.trim()).filter(Boolean)\<close>\<close>

definition parseList :: "jsstring \<Rightarrow> jsstring list" where
  "parseList raw = filter (\<lambda>s. s \<noteq> []) (map String_trim (String_split raw))"

subsection \<open>The loops\<close>

text \<open>
  The state of a run: the files, the in-memory list of valid servers, the three counters
  (JavaScript numbers, exact as naturals below \<open>2\<^sup>5\<^sup>3\<close>), and, as a ghost field, the URLs
  requested so far in order, a URL being added when \<^verbatim>\<open>checkUrl\<close> is called. The environment
  is the network, which answers a request knowing the requests made before it, and the
  disk. Console output is not modelled.
\<close>

record run_state =
  files :: filesystem
  validList :: "jsstring list"
  stats_valid :: nat
  stats_novalid :: nat
  stats_timeout :: nat
  probes :: "jsstring list"

type_synonym network = "jsstring list \<Rightarrow> fetch"

record environment =
  net :: network
  disk :: disk_outcomes

text \<open>
  How a piece of the program ends: normally, by \<^verbatim>\<open>break\<close>, by an exception, or never, on an
  \<^verbatim>\<open>await\<close> that does not settle.
\<close>

datatype completion = Normal | Break | Throw js_error | Pending

text \<open>
  One iteration of the wallet loop (lines 113 to 134): the URL is built, the probe issued and
  awaited, the line appended and awaited, and then the list and the counter updated.
  \<open>buildUrl\<close> and \<^verbatim>\<open>appendFile\<close> may throw, and nothing in \<^verbatim>\<open>main\<close> catches that; each of
  the two \<^verbatim>\<open>await\<close>s may never settle, and then the iteration stays where it is.
\<close>

definition walletBody :: "environment \<Rightarrow> jsstring \<Rightarrow> jsstring \<Rightarrow> run_state \<Rightarrow> run_state \<times> completion" where
  "walletBody env server wallet st =
     (case buildUrl server wallet of
        Inl err \<Rightarrow> (st, Throw err)
      | Inr url \<Rightarrow>
          let st1 = st\<lparr>probes := probes st @ [url]\<rparr>
          in case checkUrl (net env (probes st)) url of
            None \<Rightarrow> (st1, Pending)
          | Some result \<Rightarrow>
              if status result = valid then
                (case appendFile (disk env) (files st1) valid_txt (server @ [10]) of
                   None \<Rightarrow> (st1, Pending)
                 | Some (Inl err) \<Rightarrow> (st1, Throw err)
                 | Some (Inr fs') \<Rightarrow>
                     (st1\<lparr>files := fs',
                          validList := validList st1 @ [server],
                          stats_valid := stats_valid st1 + 1\<rparr>, Break))
              else if status result = novalid then
                (case appendFile (disk env) (files st1) novalid_txt
                        (server @ ascii ''|'' @ wallet @ ascii ''|'' @ details result @ [10]) of
                   None \<Rightarrow> (st1, Pending)
                 | Some (Inl err) \<Rightarrow> (st1, Throw err)
                 | Some (Inr fs') \<Rightarrow>
                     (st1\<lparr>files := fs', stats_novalid := stats_novalid st1 + 1\<rparr>, Normal))
              else
                (case appendFile (disk env) (files st1) timeout_txt
                        (server @ ascii ''|'' @ details result @ [10]) of
                   None \<Rightarrow> (st1, Pending)
                 | Some (Inl err) \<Rightarrow> (st1, Throw err)
                 | Some (Inr fs') \<Rightarrow>
                     (st1\<lparr>files := fs', stats_timeout := stats_timeout st1 + 1\<rparr>, Normal)))"

fun walletLoop :: "environment \<Rightarrow> jsstring \<Rightarrow> jsstring list \<Rightarrow> run_state \<Rightarrow> run_state \<times> completion" where
  "walletLoop env server [] st = (st, Normal)"
| "walletLoop env server (wallet # ws) st =
     (case walletBody env server wallet st of
        (st', Normal) \<Rightarrow> walletLoop env server ws st'
      | (st', c) \<Rightarrow> (st', c))"

text \<open>
  One iteration of the server loop (lines 101 to 141): \<^verbatim>\<open>continue\<close> when the server is in
  \<^verbatim>\<open>validList\<close>, else the wallet loop, whose \<^verbatim>\<open>break\<close> ends here.
\<close>

definition serverBody :: "environment \<Rightarrow> jsstring list \<Rightarrow> jsstring \<Rightarrow> run_state \<Rightarrow> run_state \<times> completion" where
  "serverBody env wallets server st =
     (if server \<in> set (validList st) then (st, Normal)
      else case walletLoop env server wallets st of
             (st', Throw err) \<Rightarrow> (st', Throw err)
           | (st', Pending) \<Rightarrow> (st', Pending)
           | (st', c) \<Rightarrow> (st', Normal))"

fun serverLoop :: "environment \<Rightarrow> jsstring list \<Rightarrow> jsstring list \<Rightarrow> run_state \<Rightarrow> run_state \<times> completion" where
  "serverLoop env wallets [] st = (st, Normal)"
| "serverLoop env wallets (server # ss) st =
     (case serverBody env wallets server st of
        (st', Normal) \<Rightarrow> serverLoop env wallets ss st'
      | (st', c) \<Rightarrow> (st', c))"

subsection \<open>main\<close>

text \<open>
  The result of \<^verbatim>\<open>main\<close> is the exit code of the process, \<open>None\<close> when it never exits, and
  the state it leaves. \<^verbatim>\<open>process.exit(1)\<close> ends the process on the spot; an exception that
  escapes \<^verbatim>\<open>main\<close> reaches \<^verbatim>\<open>main().catch\<close>, which exits with code 1 as well.
  \<^verbatim>\<open>Promise.all\<close> starts both truncating writes before it awaits either, rejects as soon as
  one of them rejects, and otherwise waits for both: the model performs them one after the
  other, and then throws if one of them failed, and stays if one of them never settles.
\<close>

definition initial :: "filesystem \<Rightarrow> jsstring list \<Rightarrow> run_state" where
  "initial fs vl =
     \<lparr>files = fs, validList = vl, stats_valid = 0, stats_novalid = 0, stats_timeout = 0,
      probes = []\<rparr>"

definition truncateBoth :: "disk_outcomes \<Rightarrow> filesystem \<Rightarrow> filesystem \<times> completion" where
  "truncateBoth d fs =
     (case writeFile d fs novalid_txt [] of
        Some (Inr fs1) \<Rightarrow>
          (case writeFile d fs1 timeout_txt [] of
             Some (Inr fs2) \<Rightarrow> (fs2, Normal)
           | Some (Inl err') \<Rightarrow> (fs1, Throw err')
           | None \<Rightarrow> (fs1, Pending))
      | Some (Inl err) \<Rightarrow>
          (case writeFile d fs timeout_txt [] of
             Some (Inr fs2) \<Rightarrow> (fs2, Throw err)
           | _ \<Rightarrow> (fs, Throw err))
      | None \<Rightarrow>
          (case writeFile d fs timeout_txt [] of
             Some (Inr fs2) \<Rightarrow> (fs2, Pending)
           | Some (Inl err') \<Rightarrow> (fs, Throw err')
           | None \<Rightarrow> (fs, Pending)))"

definition main :: "environment \<Rightarrow> filesystem \<Rightarrow> nat option \<times> run_state" where
  "main env fs =
     (case fs SERVERS_FILE of
        None \<Rightarrow> (Some 1, initial fs [])
      | Some serversRaw \<Rightarrow>
          (case fs WALLETS_FILE of
             None \<Rightarrow> (Some 1, initial fs [])
           | Some walletsRaw \<Rightarrow>
               let servers = parseList serversRaw;
                   wallets = parseList walletsRaw
               in if servers = [] then (Some 1, initial fs [])
                  else if wallets = [] then (Some 1, initial fs [])
                  else
                    let validList = (case fs valid_txt of
                                       None \<Rightarrow> []
                                     | Some existing \<Rightarrow> parseList existing)
                    in case truncateBoth (disk env) fs of
                         (fs', Throw err) \<Rightarrow> (Some 1, initial fs' validList)
                       | (fs', Pending) \<Rightarrow> (None, initial fs' validList)
                       | (fs', c) \<Rightarrow>
                           (case serverLoop env wallets servers (initial fs' validList) of
                              (st, Throw err) \<Rightarrow> (Some 1, st)
                            | (st, Pending) \<Rightarrow> (None, st)
                            | (st, c) \<Rightarrow> (Some 0, st))))"

subsection \<open>The states a run passes through\<close>

text \<open>
  The states after each effect of a wallet iteration, in order: the probe issued; its line
  appended; for a valid result the server pushed on the list; the counter raised. The list
  stops where the iteration stops. The points of the loops and of \<^verbatim>\<open>main\<close> are those of the
  iterations that run, \<^verbatim>\<open>main\<close>'s from the creation of the counters on.
\<close>

definition walletPoints :: "environment \<Rightarrow> jsstring \<Rightarrow> jsstring \<Rightarrow> run_state \<Rightarrow> run_state list" where
  "walletPoints env server wallet st =
     (case buildUrl server wallet of
        Inl err \<Rightarrow> []
      | Inr url \<Rightarrow>
          let st1 = st\<lparr>probes := probes st @ [url]\<rparr>
          in st1 #
            (case checkUrl (net env (probes st)) url of
               None \<Rightarrow> []
             | Some result \<Rightarrow>
                 if status result = valid then
                   (case appendFile (disk env) (files st1) valid_txt (server @ [10]) of
                      Some (Inr fs') \<Rightarrow>
                        [st1\<lparr>files := fs'\<rparr>,
                         st1\<lparr>files := fs', validList := validList st1 @ [server]\<rparr>,
                         st1\<lparr>files := fs', validList := validList st1 @ [server],
                             stats_valid := stats_valid st1 + 1\<rparr>]
                    | _ \<Rightarrow> [])
                 else if status result = novalid then
                   (case appendFile (disk env) (files st1) novalid_txt
                           (server @ ascii ''|'' @ wallet @ ascii ''|'' @ details result @ [10]) of
                      Some (Inr fs') \<Rightarrow>
                        [st1\<lparr>files := fs'\<rparr>,
                         st1\<lparr>files := fs', stats_novalid := stats_novalid st1 + 1\<rparr>]
                    | _ \<Rightarrow> [])
                 else
                   (case appendFile (disk env) (files st1) timeout_txt
                           (server @ ascii ''|'' @ details result @ [10]) of
                      Some (Inr fs') \<Rightarrow>
                        [st1\<lparr>files := fs'\<rparr>,
                         st1\<lparr>files := fs', stats_timeout := stats_timeout st1 + 1\<rparr>]
                    | _ \<Rightarrow> [])))"

fun walletLoopPoints :: "environment \<Rightarrow> jsstring \<Rightarrow> jsstring list \<Rightarrow> run_state \<Rightarrow> run_state list" where
  "walletLoopPoints env server [] st = []"
| "walletLoopPoints env server (wallet # ws) st =
     walletPoints env server wallet st @
       (case walletBody env server wallet st of
          (st', Normal) \<Rightarrow> walletLoopPoints env server ws st'
        | (st', c) \<Rightarrow> [])"

definition serverPoints :: "environment \<Rightarrow> jsstring list \<Rightarrow> jsstring \<Rightarrow> run_state \<Rightarrow> run_state list" where
  "serverPoints env wallets server st =
     (if server \<in> set (validList st) then [] else walletLoopPoints env server wallets st)"

fun serverLoopPoints :: "environment \<Rightarrow> jsstring list \<Rightarrow> jsstring list \<Rightarrow> run_state \<Rightarrow> run_state list" where
  "serverLoopPoints env wallets [] st = []"
| "serverLoopPoints env wallets (server # ss) st =
     serverPoints env wallets server st @
       (case serverBody env wallets server st of
          (st', Normal) \<Rightarrow> serverLoopPoints env wallets ss st'
        | (st', c) \<Rightarrow> [])"

definition mainPoints :: "environment \<Rightarrow> filesystem \<Rightarrow> run_state list" where
  "mainPoints env fs =
     (case (fs SERVERS_FILE, fs WALLETS_FILE) of
        (Some serversRaw, Some walletsRaw) \<Rightarrow>
          if parseList serversRaw = [] \<or> parseList walletsRaw = [] then []
          else
            (case truncateBoth (disk env) fs of
               (fs', Throw err) \<Rightarrow> []
             | (fs', Pending) \<Rightarrow> []
             | (fs', c) \<Rightarrow>
                 let st0 = initial fs' (case fs valid_txt of
                                          None \<Rightarrow> []
                                        | Some existing \<Rightarrow> parseList existing)
                 in st0 # serverLoopPoints env (parseList walletsRaw) (parseList serversRaw) st0)
      | _ \<Rightarrow> [])"

section \<open>The specification's words\<close>

text \<open>
  The shape the specification describes: a JSON object with an embedded object holding a
  non-empty \<^verbatim>\<open>records\<close> array. \<open>field\<close> is an own property of an object, \<open>firstRecord\<close> the
  first element of \<^verbatim>\<open>_embedded.records\<close>.
\<close>

fun field :: "jsvalue \<Rightarrow> jsstring \<Rightarrow> jsvalue option" where
  "field (JSObject ms) k = map_of (rev ms) k"
| "field v k = None"

definition firstRecord :: "jsvalue \<Rightarrow> jsvalue option" where
  "firstRecord j =
     (case field j (ascii ''_embedded'') of
        Some (JSObject es) \<Rightarrow>
          (case field (JSObject es) (ascii ''records'') of
             Some (JSArray (r # rs)) \<Rightarrow> Some r
           | _ \<Rightarrow> None)
      | _ \<Rightarrow> None)"

text \<open>
  The valid shape as the specification states it (the first record has an asset field and an
  amount field), and as its design notes refine it (both are present and truthy).
\<close>

definition hasAssetAndAmount :: "jsvalue \<Rightarrow> bool" where
  "hasAssetAndAmount j =
     (case firstRecord j of
        None \<Rightarrow> False
      | Some r \<Rightarrow> field r (ascii ''asset'') \<noteq> None \<and> field r (ascii ''amount'') \<noteq> None)"

definition validShape :: "jsvalue \<Rightarrow> bool" where
  "validShape j =
     (case firstRecord j of
        None \<Rightarrow> False
      | Some r \<Rightarrow>
          (case (field r (ascii ''asset''), field r (ascii ''amount'')) of
             (Some a, Some m) \<Rightarrow> ToBoolean a \<and> ToBoolean m
           | _ \<Rightarrow> False))"

text \<open>A value in which \<^verbatim>\<open>undefined\<close> does not occur, as in everything \<^verbatim>\<open>JSON.parse\<close> returns.\<close>

fun defined :: "jsvalue \<Rightarrow> bool" where
  "defined JSUndefined = False"
| "defined (JSArray xs) = list_all defined xs"
| "defined (JSObject ms) = list_all (\<lambda>m. defined (snd m)) ms"
| "defined v = True"

definition definedFrame :: "frame \<Rightarrow> bool" where
  "definedFrame f =
     (case f of ArrayFrame acc \<Rightarrow> list_all defined acc
              | ObjectFrame ms k \<Rightarrow> list_all (\<lambda>m. defined (snd m)) ms)"

definition definedMode :: "mode \<Rightarrow> bool" where
  "definedMode m = (case m of Done v \<Rightarrow> defined v | _ \<Rightarrow> True)"

text \<open>
  The variant of the prober without the substring pre-check: it parses the body and checks
  the shape directly.
\<close>

definition checkUrl_direct :: "fetch \<Rightarrow> jsstring \<Rightarrow> probe_result option" where
  "checkUrl_direct fetch url =
     (case fetchWithTimeout fetch url TIMEOUT_MS of
        Inl err \<Rightarrow> Some (onError err)
      | Inr res \<Rightarrow>
          if \<not> res_ok res
          then Some \<lparr>status = novalid, details = ascii ''HTTP '' @ decimal (res_status res)\<rparr>
          else case res_text res of
            None \<Rightarrow> None
          | Some (Inl err) \<Rightarrow> Some (onError err)
          | Some (Inr text) \<Rightarrow> Some (classifyJson text))"

text \<open>The invariant of the counters: together they count the probes issued.\<close>

definition countersMatch :: "run_state \<Rightarrow> bool" where
  "countersMatch st = (stats_valid st + stats_novalid st + stats_timeout st = length (probes st))"

text \<open>The counters count the probes issued, or all but the last one.\<close>

definition countersLag :: "run_state \<Rightarrow> bool" where
  "countersLag st =
     (stats_valid st + stats_novalid st + stats_timeout st = length (probes st)
      \<or> stats_valid st + stats_novalid st + stats_timeout st + 1 = length (probes st))"

text \<open>From one state to the next, exactly one of the three counters has grown, by one.\<close>

definition oneCounterUp :: "run_state \<Rightarrow> run_state \<Rightarrow> bool" where
  "oneCounterUp st st' =
     ((stats_valid st' = stats_valid st + 1 \<and> stats_novalid st' = stats_novalid st
         \<and> stats_timeout st' = stats_timeout st)
      \<or> (stats_valid st' = stats_valid st \<and> stats_novalid st' = stats_novalid st + 1
         \<and> stats_timeout st' = stats_timeout st)
      \<or> (stats_valid st' = stats_valid st \<and> stats_novalid st' = stats_novalid st
         \<and> stats_timeout st' = stats_timeout st + 1))"

text \<open>
  The valid list in memory agrees with \<^verbatim>\<open>valid.txt\<close>: the file is absent and the list empty,
  or the file is empty or ends with a line feed and reads back as the list.
\<close>

definition inSync :: "run_state \<Rightarrow> bool" where
  "inSync st =
     (case files st valid_txt of
        None \<Rightarrow> validList st = []
      | Some c \<Rightarrow> (c = [] \<or> last c = 10) \<and> validList st = parseList c)"

section \<open>Sample inputs\<close>

text \<open>
  A \<open>fetch\<close> that resolves with a given status and body, one whose response arrives but whose
  body never ends, one that rejects with a given error, one whose timer always fires first,
  and the URL of the specification's scenario.
\<close>

definition respondWith :: "nat \<Rightarrow> jsstring \<Rightarrow> fetch" where
  "respondWith code body =
     (\<lambda>url timeoutMs. Resolved \<lparr>res_status = code, res_text = Some (Inr body)\<rparr>)"

definition stallAfter :: "nat \<Rightarrow> fetch" where
  "stallAfter code = (\<lambda>url timeoutMs. Resolved \<lparr>res_status = code, res_text = None\<rparr>)"

definition rejectWith :: "js_error \<Rightarrow> fetch" where
  "rejectWith err = (\<lambda>url timeoutMs. Rejected err)"

definition neverAnswers :: fetch where
  "neverAnswers = (\<lambda>url timeoutMs. TimerFired)"

definition sampleUrl :: jsstring where
  "sampleUrl = ascii ''http://a.example:31401/claimable_balances?claimant=W1''"

text \<open>
  Response bodies: a claimable balance of 5; a record whose amount is the number 0; an empty
  record list; a record list holding \<^verbatim>\<open>null\<close>; the empty object; the first body with the key
  \<^verbatim>\<open>_embedded\<close> spelled with the escape \<^verbatim>\<open>\u005f\<close> for its underscore; a record whose amount
  is an object with a key \<^verbatim>\<open>toString\<close>; a record whose amount is the number 1.5.
\<close>

definition balanceBody :: jsstring where
  \<open>balanceBody = ascii ''{"_embedded":{"records":[{"asset":"native","amount":"5"}]}}''\<close>

definition zeroAmountBody :: jsstring where
  \<open>zeroAmountBody = ascii ''{"_embedded":{"records":[{"asset":"native","amount":0}]}}''\<close>

definition noRecordsBody :: jsstring where
  \<open>noRecordsBody = ascii ''{"_embedded":{"records":[]}}''\<close>

definition nullRecordBody :: jsstring where
  \<open>nullRecordBody = ascii ''{"_embedded":{"records":[null]}}''\<close>

definition emptyObjectBody :: jsstring where
  \<open>emptyObjectBody = ascii ''{}''\<close>

definition escapedKeyBody :: jsstring where
  \<open>escapedKeyBody =
     ascii ''{"'' @ [0x5C] @ ascii ''u005fembedded":{"records":[{"asset":"native","amount":"5"}]}}''\<close>

definition unprintableAmountBody :: jsstring where
  \<open>unprintableAmountBody =
     ascii ''{"_embedded":{"records":[{"asset":"native","amount":{"toString":null}}]}}''\<close>

definition numberAmountBody :: jsstring where
  \<open>numberAmountBody = ascii ''{"_embedded":{"records":[{"asset":"native","amount":1.50}]}}''\<close>

definition balanceValue :: jsvalue where
  "balanceValue =
     JSObject [(ascii ''_embedded'',
       JSObject [(ascii ''records'',
         JSArray [JSObject [(ascii ''asset'', JSString (ascii ''native'')),
                            (ascii ''amount'', JSString (ascii ''5''))]])])]"

text \<open>
  A disk on which every write succeeds and one on which \<^verbatim>\<open>valid.txt\<close> cannot be written.
  Environments: every probe finds a claimable balance; the same with the read-only
  \<^verbatim>\<open>valid.txt\<close>; the body of every response never ends. A working directory with one
  server, one wallet and a \<^verbatim>\<open>valid.txt\<close> whose last line has no line ending.
\<close>

definition noErrors :: disk_outcomes where
  "noErrors = (\<lambda>f s fs. Written)"

definition validTxtReadOnly :: disk_outcomes where
  "validTxtReadOnly =
     (\<lambda>f s fs. if f = valid_txt
                then Failed \<lparr>name = ascii ''Error'', message = ascii ''EACCES: permission denied''\<rparr>
                else Written)"

definition alwaysValid :: environment where
  "alwaysValid = \<lparr>net = (\<lambda>history. respondWith 200 balanceBody), disk = noErrors\<rparr>"

definition alwaysValidReadOnly :: environment where
  "alwaysValidReadOnly =
     \<lparr>net = (\<lambda>history. respondWith 200 balanceBody), disk = validTxtReadOnly\<rparr>"

definition alwaysStalls :: environment where
  "alwaysStalls = \<lparr>net = (\<lambda>history. stallAfter 200), disk = noErrors\<rparr>"

definition unterminatedFs :: filesystem where
  "unterminatedFs =
     [SERVERS_FILE \<mapsto> ascii ''a.example'' @ [10],
      WALLETS_FILE \<mapsto> ascii ''W1'' @ [10],
      valid_txt \<mapsto> ascii ''x.example'']"

text \<open>
  The scenario of the specification: one server, two wallets; the probe of the first wallet
  finds an empty record list, the probe of the second a claimable balance.
\<close>

definition scenarioEnv :: environment where
  "scenarioEnv =
     \<lparr>net = (\<lambda>history url.
               if String_includes url (ascii ''claimant=W1'') then respondWith 200 noRecordsBody url
               else respondWith 200 balanceBody url),
      disk = noErrors\<rparr>"

definition scenarioFs :: filesystem where
  "scenarioFs =
     [SERVERS_FILE \<mapsto> ascii ''a.example'' @ [10],
      WALLETS_FILE \<mapsto> ascii ''W1'' @ [10] @ ascii ''W2'' @ [10]]"

section \<open>Properties of buildUrl\<close>

lemma decimal_DEFAULT_PORT: "decimal DEFAULT_PORT = ascii ''31401''"
  by (simp add: DEFAULT_PORT_def decimal.simps ascii_def)

lemma unreserved_not_surrogate:
  "uriUnreserved c \<Longrightarrow> \<not> isLeadSurrogate c \<and> \<not> isTrailSurrogate c"
  unfolding uriUnreserved_def isLeadSurrogate_def isTrailSurrogate_def
  by (auto simp: word_le_def word_less_def)

lemma lead_not_trail: "isLeadSurrogate c \<Longrightarrow> \<not> isTrailSurrogate c"
  unfolding isLeadSurrogate_def isTrailSurrogate_def
  by (auto simp: word_le_def)

lemma encodeURIComponent_total:
  "isWellFormed w \<Longrightarrow> \<exists>enc. encodeURIComponent w = Inr enc"
proof (induction w rule: isWellFormed.induct)
  case 1
  show ?case by simp
next
  case (2 c)
  then show ?case by (simp add: andThen_def)
next
  case (3 c d ds)
  show ?case
  proof (cases "isLeadSurrogate c")
    case True
    with "3.prems" have d: "isTrailSurrogate d" and wf: "isWellFormed ds" by simp_all
    from "3.IH"(1) [OF True wf] obtain e where "encodeURIComponent ds = Inr e" ..
    with True d show ?thesis
      using unreserved_not_surrogate [of c] lead_not_trail [of c]
      by (auto simp: andThen_def)
  next
    case False
    with "3.prems" have nt: "\<not> isTrailSurrogate c" and wf: "isWellFormed (d # ds)" by simp_all
    from "3.IH"(2) [OF False wf] obtain e where "encodeURIComponent (d # ds) = Inr e" ..
    with False nt show ?thesis
      by (auto simp: andThen_def simp del: encodeURIComponent.simps(2)
               simp add: encodeURIComponent.simps(2) [of c])
  qed
qed

text \<open>
  Outside the well-formed strings \<^verbatim>\<open>encodeURIComponent\<close> throws, and \<open>buildUrl\<close> with it.
\<close>

lemma encodeURIComponent_unpaired:
  "\<not> isWellFormed w \<Longrightarrow> encodeURIComponent w = Inl URIError"
proof (induction w rule: isWellFormed.induct)
  case 1
  then show ?case by simp
next
  case (2 c)
  then show ?case
    using unreserved_not_surrogate [of c] by (auto simp: andThen_def)
next
  case (3 c d ds)
  show ?case
  proof (cases "isLeadSurrogate c")
    case True
    show ?thesis
    proof (cases "isTrailSurrogate d")
      case d: True
      with True "3.prems" have "\<not> isWellFormed ds" by simp
      from "3.IH"(1) [OF True this] True d show ?thesis
        using unreserved_not_surrogate [of c] lead_not_trail [of c]
        by (auto simp: andThen_def)
    next
      case False
      with True show ?thesis
        using unreserved_not_surrogate [of c] lead_not_trail [of c]
        by (auto simp: andThen_def)
    qed
  next
    case False
    show ?thesis
    proof (cases "isTrailSurrogate c")
      case True
      then show ?thesis
        using unreserved_not_surrogate [of c] by (auto simp: andThen_def)
    next
      case nt: False
      with False "3.prems" have "\<not> isWellFormed (d # ds)" by simp
      from "3.IH"(2) [OF False this] False nt show ?thesis
        by (auto simp: andThen_def simp del: encodeURIComponent.simps(2)
                 simp add: encodeURIComponent.simps(2) [of c])
    qed
  qed
qed

lemma buildUrl_unpaired_surrogate:
  "\<not> isWellFormed wallet \<Longrightarrow> buildUrl server wallet = Inl URIError"
  by (simp add: buildUrl_def Let_def andThen_def encodeURIComponent_unpaired)

text \<open>
  No wallet of a run is such a string. \<^verbatim>\<open>readFile\<close> with the encoding \<^verbatim>\<open>utf8\<close> decodes
  bytes and gives a well-formed string (a malformed byte sequence becomes \<^verbatim>\<open>U+FFFD\<close>), and the
  lines that \<open>parseList\<close> cuts out of a well-formed string are well-formed: the line
  terminators and the white space that \<^verbatim>\<open>split\<close> and \<^verbatim>\<open>trim\<close> remove are no surrogates, so no
  pair is cut.
\<close>

lemma trimmed_not_surrogate: "isTrimmed c \<Longrightarrow> \<not> isLeadSurrogate c \<and> \<not> isTrailSurrogate c"
  unfolding isTrimmed_def isLeadSurrogate_def isTrailSurrogate_def
  by (auto simp: word_le_def word_less_def)

lemma wf_Cons_plain:
  "\<not> isLeadSurrogate c \<Longrightarrow> \<not> isTrailSurrogate c \<Longrightarrow> isWellFormed (c # s) = isWellFormed s"
  by (cases s) simp_all

lemma wf_snoc_plain:
  "\<not> isLeadSurrogate c \<Longrightarrow> \<not> isTrailSurrogate c \<Longrightarrow> isWellFormed (s @ [c]) = isWellFormed s"
  by (induction s rule: isWellFormed.induct) auto

lemma wf_dropWhile: "isWellFormed s \<Longrightarrow> isWellFormed (dropWhile isTrimmed s)"
  by (induction s) (auto simp: wf_Cons_plain trimmed_not_surrogate)

lemma wf_dropWhile_end:
  "isWellFormed s \<Longrightarrow> isWellFormed (rev (dropWhile isTrimmed (rev s)))"
  by (induction s rule: rev_induct) (auto simp: wf_snoc_plain trimmed_not_surrogate)

lemma String_trim_well_formed: "isWellFormed s \<Longrightarrow> isWellFormed (String_trim s)"
  unfolding String_trim_def by (intro wf_dropWhile_end wf_dropWhile)

lemma wf_after_lead:
  "isLeadSurrogate c \<Longrightarrow> isWellFormed (c # s) = (s \<noteq> [] \<and> isTrailSurrogate (hd s) \<and> isWellFormed (tl s))"
  by (cases s) simp_all

lemma String_split_nonempty: "String_split s \<noteq> []"
  by (induction s rule: String_split.induct) (auto simp: consLine_def split: list.splits)

lemma String_split_well_formed_aux:
  "(isWellFormed s \<longrightarrow> list_all isWellFormed (String_split s))
   \<and> (s \<noteq> [] \<and> isTrailSurrogate (hd s) \<and> isWellFormed (tl s) \<longrightarrow>
        (let l = hd (String_split s)
         in l \<noteq> [] \<and> isTrailSurrogate (hd l) \<and> isWellFormed (tl l))
        \<and> list_all isWellFormed (tl (String_split s)))"
proof (induction s rule: String_split.induct)
  case 1
  show ?case by simp
next
  case (2 c)
  show ?case by (auto simp: isTrailSurrogate_def)
next
  case (3 c d ds)
  have lf: "\<not> isLeadSurrogate 10" "\<not> isTrailSurrogate 10"
    and cr: "\<not> isLeadSurrogate 13" "\<not> isTrailSurrogate 13"
    by (simp_all add: isLeadSurrogate_def isTrailSurrogate_def)
  show ?case
  proof (cases "c = 10")
    case True
    with "3.IH"(1) lf show ?thesis by (simp add: wf_Cons_plain)
  next
    case c10: False
    show ?thesis
    proof (cases "c = 13 \<and> d = 10")
      case True
      with c10 "3.IH"(2) lf cr show ?thesis by (simp add: wf_Cons_plain)
    next
      case False
      from String_split_nonempty [of "d # ds"] obtain l ls
        where sp: "String_split (d # ds) = l # ls" by (cases "String_split (d # ds)") auto
      from c10 False sp have this_split: "String_split (c # d # ds) = (c # l) # ls"
        by (auto simp: consLine_def)
      from "3.IH"(3) [OF c10 False] sp
      have ih1: "isWellFormed (d # ds) \<Longrightarrow> isWellFormed l \<and> list_all isWellFormed ls"
        and ih2: "isTrailSurrogate d \<Longrightarrow> isWellFormed ds \<Longrightarrow>
                    l \<noteq> [] \<and> isTrailSurrogate (hd l) \<and> isWellFormed (tl l)
                    \<and> list_all isWellFormed ls"
        by (simp_all add: Let_def)
      have first: "isWellFormed (c # d # ds) \<Longrightarrow> isWellFormed (c # l) \<and> list_all isWellFormed ls"
      proof (cases "isLeadSurrogate c")
        case True
        assume "isWellFormed (c # d # ds)"
        with True have "isTrailSurrogate d" "isWellFormed ds" by simp_all
        from ih2 [OF this] True show ?thesis by (simp add: wf_after_lead)
      next
        case False
        assume "isWellFormed (c # d # ds)"
        with False have nt: "\<not> isTrailSurrogate c" and "isWellFormed (d # ds)" by simp_all
        from ih1 [OF this(2)] False nt show ?thesis by (simp add: wf_Cons_plain)
      qed
      have second: "isTrailSurrogate c \<Longrightarrow> isWellFormed (d # ds) \<Longrightarrow>
                      isWellFormed l \<and> list_all isWellFormed ls"
        using ih1 by simp
      from first second this_split show ?thesis by (auto simp: Let_def)
    qed
  qed
qed

lemma String_split_well_formed:
  "isWellFormed s \<Longrightarrow> l \<in> set (String_split s) \<Longrightarrow> isWellFormed l"
  using String_split_well_formed_aux [of s] by (simp add: list_all_iff)

lemma parseList_well_formed:
  "isWellFormed raw \<Longrightarrow> w \<in> set (parseList raw) \<Longrightarrow> isWellFormed w"
  unfolding parseList_def
  by (auto intro: String_trim_well_formed String_split_well_formed)

text \<open>
  Claim C5. \<open>buildUrl\<close> is a function of its two arguments, and for every server string and
  every wallet string (a string without an unpaired surrogate, as are all wallets of a run)
  it returns \<^verbatim>\<open>http://<host>/claimable_balances?claimant=<enc>\<close>, where the host is the
  server itself if it contains a colon and the server followed by \<^verbatim>\<open>:31401\<close> otherwise, and
  \<open>enc\<close> is the percent-encoding that \<^verbatim>\<open>encodeURIComponent\<close> returns on the wallet; it does
  not fail.
\<close>

theorem buildUrl_well_formed:
  "isWellFormed wallet \<Longrightarrow>
     \<exists>enc. encodeURIComponent wallet = Inr enc \<and>
       buildUrl server wallet =
         Inr (ascii ''http://''
              @ (if String_includes server (ascii '':'') then server else server @ ascii '':31401'')
              @ ascii ''/claimable_balances?claimant='' @ enc)"
proof -
  assume "isWellFormed wallet"
  then obtain enc where "encodeURIComponent wallet = Inr enc"
    using encodeURIComponent_total by blast
  then show ?thesis
    by (simp add: buildUrl_def andThen_def decimal_DEFAULT_PORT ascii_def)
qed

theorem buildUrl_well_formed_witness:
  "isWellFormed (ascii ''G A'') \<and>
   buildUrl (ascii ''node1'') (ascii ''G A'') =
     Inr (ascii ''http://node1:31401/claimable_balances?claimant=G%20A'')"
  using buildUrl_well_formed [of "ascii ''G A''" "ascii ''node1''"]
  by (simp add: ascii_def andThen_def uriUnreserved_def isLeadSurrogate_def isTrailSurrogate_def
        percentOctets_def utf8_def hexDigit_def)

section \<open>Properties of the prober\<close>

lemma firstRecord_SomeD:
  "firstRecord j = Some r \<Longrightarrow>
     \<exists>ms es rs. j = JSObject ms \<and> map_of (rev ms) (ascii ''_embedded'') = Some (JSObject es)
        \<and> map_of (rev es) (ascii ''records'') = Some (JSArray (r # rs))"
  by (cases j) (auto simp: firstRecord_def split: option.splits jsvalue.splits list.splits)

lemma inspect_firstRecord:
  "firstRecord j = Some r \<Longrightarrow>
     inspect j =
       (case Get r (ascii ''asset'') of
          None \<Rightarrow> None
        | Some a \<Rightarrow>
            if \<not> ToBoolean a then Some mismatch
            else case Get r (ascii ''amount'') of
              None \<Rightarrow> None
            | Some m \<Rightarrow>
                if ToBoolean m
                then (case ToString m of
                        None \<Rightarrow> None
                      | Some s \<Rightarrow> Some \<lparr>status = valid, details = ascii ''amount='' @ s\<rparr>)
                else Some mismatch)"
  by (drule firstRecord_SomeD) (auto simp: inspect_def)

lemma inspect_no_firstRecord:
  "firstRecord j = None \<Longrightarrow> inspect j = Some mismatch"
proof (cases j)
  case (JSObject ms)
  assume n: "firstRecord j = None"
  show ?thesis
  proof (cases "map_of (rev ms) (ascii ''_embedded'')")
    case None
    with JSObject show ?thesis by (simp add: inspect_def)
  next
    case (Some e)
    show ?thesis
    proof (cases e)
      case (JSObject es)
      with n Some \<open>j = JSObject ms\<close>
      have "\<forall>r rs. map_of (rev es) (ascii ''records'') \<noteq> Some (JSArray (r # rs))"
        by (auto simp: firstRecord_def split: option.splits jsvalue.splits list.splits)
      with JSObject Some \<open>j = JSObject ms\<close> show ?thesis
        by (cases "map_of (rev es) (ascii ''records'')";
            cases "the (map_of (rev es) (ascii ''records''))";
            cases "elements (the (map_of (rev es) (ascii ''records'')))")
           (auto simp: inspect_def)
    qed (use Some \<open>j = JSObject ms\<close> in \<open>auto simp: inspect_def\<close>)
  qed
qed (auto simp: inspect_def)

lemma Get_field:
  "r \<noteq> JSNull \<Longrightarrow> r \<noteq> JSUndefined \<Longrightarrow>
     Get r k = Some (case field r k of None \<Rightarrow> JSUndefined | Some v \<Rightarrow> v)"
  by (cases r) (auto split: option.splits)

lemma field_SomeD: "field r k = Some v \<Longrightarrow> r \<noteq> JSNull \<and> r \<noteq> JSUndefined"
  by (cases r) auto

lemma inspect_valid:
  assumes "firstRecord j = Some r"
    and "field r (ascii ''asset'') = Some a" and "field r (ascii ''amount'') = Some m"
    and "ToBoolean a" and "ToBoolean m"
  shows "inspect j =
           map_option (\<lambda>s. \<lparr>status = valid, details = ascii ''amount='' @ s\<rparr>) (ToString m)"
proof -
  from assms(2) have "r \<noteq> JSNull" "r \<noteq> JSUndefined"
    using field_SomeD by blast+
  then have "Get r (ascii ''asset'') = Some a" "Get r (ascii ''amount'') = Some m"
    using assms(2,3) by (simp_all add: Get_field)
  with assms(1,4,5) show ?thesis
    by (simp add: inspect_firstRecord split: option.splits)
qed

lemma inspect_invalid:
  assumes "\<not> validShape j"
  shows "inspect j =
           (if firstRecord j = Some JSNull \<or> firstRecord j = Some JSUndefined then None
            else Some mismatch)"
proof (cases "firstRecord j")
  case None
  then show ?thesis by (simp add: inspect_no_firstRecord)
next
  case (Some r)
  show ?thesis
  proof (cases "r = JSNull \<or> r = JSUndefined")
    case True
    with Some show ?thesis
      by (auto simp: inspect_firstRecord)
  next
    case False
    then have g: "Get r k = Some (case field r k of None \<Rightarrow> JSUndefined | Some v \<Rightarrow> v)" for k
      by (simp add: Get_field)
    from assms Some have
      "\<not> (\<exists>a m. field r (ascii ''asset'') = Some a \<and> field r (ascii ''amount'') = Some m
            \<and> ToBoolean a \<and> ToBoolean m)"
      by (auto simp: validShape_def)
    with Some False show ?thesis
      by (auto simp: inspect_firstRecord g split: option.splits)
  qed
qed

lemma inspect_status_valid:
  "inspect j = Some r \<Longrightarrow> status r = valid \<Longrightarrow> validShape j"
proof (rule ccontr)
  assume "inspect j = Some r" "status r = valid" "\<not> validShape j"
  then show False
    using inspect_invalid [of j] by (auto simp: mismatch_def split: if_splits)
qed

lemma checkUrl_body:
  assumes "fetch url TIMEOUT_MS = Resolved res" and "res_ok res" and "res_text res = Some (Inr text)"
  shows "checkUrl fetch url = Some (classifyText text)"
    and "checkUrl_direct fetch url = Some (classifyJson text)"
  using assms by (simp_all add: checkUrl_def checkUrl_direct_def fetchWithTimeout_def)

lemma checkUrl_no_body:
  assumes "\<nexists>res text. fetch url TIMEOUT_MS = Resolved res \<and> res_ok res
             \<and> res_text res = Some (Inr text)"
  shows "checkUrl_direct fetch url = checkUrl fetch url"
  using assms
  by (auto simp: checkUrl_def checkUrl_direct_def fetchWithTimeout_def
           split: sum.splits fetch_outcome.splits option.splits)

lemma classifyJson_valid:
  "status (classifyJson text) = valid \<Longrightarrow> \<exists>j. JSON_parse text = Some j \<and> validShape j"
proof -
  assume "status (classifyJson text) = valid"
  then obtain j r where "JSON_parse text = Some j" "inspect j = Some r" "status r = valid"
    by (auto simp: classifyJson_def split: option.splits Option.bind_splits)
  then show "\<exists>j. JSON_parse text = Some j \<and> validShape j"
    using inspect_status_valid by blast
qed

text \<open>
  The prober says valid only when the response has a success status and a body that contains
  both substrings and parses into the valid shape.
\<close>

lemma valid_status_only:
  assumes "checkUrl fetch url = Some r" and "status r = valid"
  shows "\<exists>res body j. fetch url TIMEOUT_MS = Resolved res \<and> res_ok res
           \<and> res_text res = Some (Inr body)
           \<and> String_includes body (ascii ''_embedded'') \<and> String_includes body (ascii ''records'')
           \<and> JSON_parse body = Some j \<and> validShape j"
proof (cases "\<exists>res body. fetch url TIMEOUT_MS = Resolved res \<and> res_ok res
                \<and> res_text res = Some (Inr body)")
  case False
  with assms have False
    by (auto simp: checkUrl_def fetchWithTimeout_def onError_def
             split: sum.splits fetch_outcome.splits option.splits if_splits)
  then show ?thesis ..
next
  case True
  then obtain res body where r: "fetch url TIMEOUT_MS = Resolved res" "res_ok res"
    "res_text res = Some (Inr body)"
    by blast
  have "checkUrl fetch url = Some (classifyText body)"
    using checkUrl_body(1) [of fetch url res body] r by simp
  with assms have "status (classifyText body) = valid" by simp
  then show ?thesis
    using r classifyJson_valid [of body]
    by (auto simp: classifyText_def split: if_splits)
qed

text \<open>
  Claim C1 (as amended). A probe whose response has a success status and whose body contains
  the substrings \<^verbatim>\<open>_embedded\<close> and \<^verbatim>\<open>records\<close> and parses as JSON into an object with a
  non-empty \<^verbatim>\<open>_embedded.records\<close> array, the first record of which has an asset and an
  amount that are both truthy, the amount being a value that converts to a string, is
  classified valid, with detail \<^verbatim>\<open>amount=\<close> followed by the amount converted to a string.
\<close>

theorem checkUrl_valid:
  assumes "fetch url TIMEOUT_MS = Resolved res" and "res_ok res"
    and "res_text res = Some (Inr text)"
    and "String_includes text (ascii ''_embedded'')" and "String_includes text (ascii ''records'')"
    and "JSON_parse text = Some j" and "firstRecord j = Some r"
    and "field r (ascii ''asset'') = Some a" and "field r (ascii ''amount'') = Some m"
    and "ToBoolean a" and "ToBoolean m" and "ToString m = Some s"
  shows "checkUrl fetch url = Some \<lparr>status = valid, details = ascii ''amount='' @ s\<rparr>"
proof -
  have "inspect j = Some \<lparr>status = valid, details = ascii ''amount='' @ s\<rparr>"
    using inspect_valid [OF assms(7-11)] assms(12) by simp
  with assms(4-6) have "classifyText text = \<lparr>status = valid, details = ascii ''amount='' @ s\<rparr>"
    by (simp add: classifyText_def classifyJson_def)
  with checkUrl_body(1) [of fetch url res "text"] assms(1-3) show ?thesis by simp
qed

lemma parse_balanceBody: "JSON_parse balanceBody = Some balanceValue"
  by code_simp

lemma classifyText_balanceBody:
  "classifyText balanceBody = \<lparr>status = valid, details = ascii ''amount=5''\<rparr>"
  by code_simp

lemma firstRecord_balanceValue:
  "firstRecord balanceValue =
     Some (JSObject [(ascii ''asset'', JSString (ascii ''native'')),
                     (ascii ''amount'', JSString (ascii ''5''))])"
  by code_simp

theorem checkUrl_valid_witness:
  "checkUrl (respondWith 200 balanceBody) sampleUrl =
     Some \<lparr>status = valid, details = ascii ''amount=5''\<rparr>"
proof -
  have "respondWith 200 balanceBody sampleUrl TIMEOUT_MS
          = Resolved \<lparr>res_status = 200, res_text = Some (Inr balanceBody)\<rparr>"
    by (simp add: respondWith_def)
  moreover have "res_ok \<lparr>res_status = 200, res_text = Some (Inr balanceBody)\<rparr>"
    by (simp add: res_ok_def)
  moreover have
    "res_text \<lparr>res_status = 200, res_text = Some (Inr balanceBody)\<rparr> = Some (Inr balanceBody)"
    by simp
  moreover have "String_includes balanceBody (ascii ''_embedded'')"
    and "String_includes balanceBody (ascii ''records'')"
    by code_simp+
  moreover note parse_balanceBody firstRecord_balanceValue
  moreover have
    "field (JSObject [(ascii ''asset'', JSString (ascii ''native'')),
                      (ascii ''amount'', JSString (ascii ''5''))]) (ascii ''asset'')
       = Some (JSString (ascii ''native''))"
    "field (JSObject [(ascii ''asset'', JSString (ascii ''native'')),
                      (ascii ''amount'', JSString (ascii ''5''))]) (ascii ''amount'')
       = Some (JSString (ascii ''5''))"
    by code_simp+
  moreover have "ToBoolean (JSString (ascii ''native''))" "ToBoolean (JSString (ascii ''5''))"
    by (simp_all add: ascii_def)
  moreover have "ToString (JSString (ascii ''5'')) = Some (ascii ''5'')"
    by simp
  ultimately have
    "checkUrl (respondWith 200 balanceBody) sampleUrl =
       Some \<lparr>status = valid, details = ascii ''amount='' @ ascii ''5''\<rparr>"
    by (rule checkUrl_valid [of "respondWith 200 balanceBody" sampleUrl])
  then show ?thesis by (simp add: ascii_def)
qed

text \<open>
  Claim C1 as stated fails on a record that has both fields but whose amount is the number
  0: the body is valid JSON of the stated shape, and the probe is classified novalid.
\<close>

theorem checkUrl_zero_amount_novalid:
  "JSON_parse zeroAmountBody \<noteq> None \<and> hasAssetAndAmount (the (JSON_parse zeroAmountBody)) \<and>
   checkUrl (respondWith 200 zeroAmountBody) sampleUrl =
     Some \<lparr>status = novalid, details = ascii ''json but structure mismatch''\<rparr>"
  by code_simp

text \<open>
  The amount is converted by the template literal inside the inner \<^verbatim>\<open>try\<close>. An amount that
  is an object with a key \<^verbatim>\<open>toString\<close> cannot be converted: the \<^verbatim>\<open>TypeError\<close> lands in the
  \<^verbatim>\<open>catch\<close>, and the probe is classified novalid. An amount that is a number is printed as
  JavaScript prints numbers.
\<close>

lemma checkUrl_unprintable:
  assumes "fetch url TIMEOUT_MS = Resolved res" and "res_ok res"
    and "res_text res = Some (Inr text)"
    and "String_includes text (ascii ''_embedded'')" and "String_includes text (ascii ''records'')"
    and "JSON_parse text = Some j" and "firstRecord j = Some r"
    and "field r (ascii ''asset'') = Some a" and "field r (ascii ''amount'') = Some m"
    and "ToBoolean a" and "ToBoolean m" and "ToString m = None"
  shows "checkUrl fetch url = Some \<lparr>status = novalid, details = ascii ''non-json response''\<rparr>"
proof -
  have "inspect j = None"
    using inspect_valid [OF assms(7-11)] assms(12) by simp
  with assms(4-6) have
    "classifyText text = \<lparr>status = novalid, details = ascii ''non-json response''\<rparr>"
    by (simp add: classifyText_def classifyJson_def)
  with checkUrl_body(1) [of fetch url res "text"] assms(1-3) show ?thesis by simp
qed

lemma checkUrl_unprintable_amount:
  "checkUrl (respondWith 200 unprintableAmountBody) sampleUrl =
     Some \<lparr>status = novalid, details = ascii ''non-json response''\<rparr>"
  by code_simp

lemma checkUrl_number_amount:
  "checkUrl (respondWith 200 numberAmountBody) sampleUrl =
     Some \<lparr>status = valid, details = ascii ''amount=1.5''\<rparr>"
  by code_simp

subsection \<open>What JSON.parse returns is defined\<close>

lemma scalar_defined: "scalar t = Some v \<Longrightarrow> defined v"
  by (cases t) (auto simp: scalar_def)

lemma step_defined:
  assumes "step m st t = Some (m', st')" and "definedMode m" and "list_all definedFrame st"
  shows "definedMode m' \<and> list_all definedFrame st'"
proof (cases m)
  case (Done v)
  with assms show ?thesis
    by (auto simp: step_def afterValue_def definedMode_def definedFrame_def
             split: list.splits frame.splits option.splits if_splits)
next
  case WantValue
  with assms show ?thesis
    by (auto simp: step_def beginValue_def definedMode_def definedFrame_def
             dest: scalar_defined split: if_splits)
next
  case WantValueOrClose
  with assms show ?thesis
    by (cases st)
       (auto simp: step_def beginValue_def definedMode_def definedFrame_def
             dest: scalar_defined split: if_splits)
next
  case WantKey
  with assms show ?thesis
    by (auto simp: step_def beginMember_def definedMode_def definedFrame_def
             split: list.splits frame.splits option.splits token.splits)
next
  case WantKeyOrClose
  with assms show ?thesis
    by (cases st)
       (auto simp: step_def beginMember_def definedMode_def definedFrame_def
             split: list.splits frame.splits option.splits token.splits if_splits)
next
  case WantColon
  with assms show ?thesis
    by (auto simp: step_def definedMode_def split: if_splits)
qed

lemma run_defined:
  "run m st ts = Some v \<Longrightarrow> definedMode m \<Longrightarrow> list_all definedFrame st \<Longrightarrow> defined v"
proof (induction ts arbitrary: m st)
  case Nil
  then show ?case
    by (auto simp: definedMode_def split: mode.splits list.splits)
next
  case (Cons t ts)
  from Cons.prems(1) obtain m' st' where s: "step m st t = Some (m', st')"
    and r: "run m' st' ts = Some v"
    by (auto split: option.splits)
  from step_defined [OF s Cons.prems(2,3)] Cons.IH [OF r] show ?case by blast
qed

lemma JSON_parse_defined: "JSON_parse body = Some j \<Longrightarrow> defined j"
  by (auto simp: JSON_parse_def definedMode_def split: option.splits dest!: run_defined)

lemma map_of_defined:
  "list_all (\<lambda>m. defined (snd m)) ms \<Longrightarrow> map_of (rev ms) k = Some v \<Longrightarrow> defined v"
  by (force simp: list_all_iff dest!: map_of_SomeD)

lemma firstRecord_defined:
  assumes "defined j" and "firstRecord j = Some r"
  shows "r \<noteq> JSUndefined"
proof -
  from firstRecord_SomeD [OF assms(2)] obtain ms es rs where
    j: "j = JSObject ms" and e: "map_of (rev ms) (ascii ''_embedded'') = Some (JSObject es)"
    and rs: "map_of (rev es) (ascii ''records'') = Some (JSArray (r # rs))"
    by blast
  from assms(1) j e have "defined (JSObject es)"
    using map_of_defined by fastforce
  with rs have "defined (JSArray (r # rs))"
    using map_of_defined by fastforce
  then show ?thesis by auto
qed

text \<open>
  Claim C8 (as amended). A probe whose response has a success status and whose body parses
  as JSON but not into the valid shape is classified novalid. Unless the first record is
  \<^verbatim>\<open>null\<close>, the detail is \<^verbatim>\<open>json but structure mismatch\<close> when the body contains both
  substrings, and \<^verbatim>\<open>no _embedded/records in response\<close> when it lacks one of them.
\<close>

theorem checkUrl_mismatch:
  assumes "fetch url TIMEOUT_MS = Resolved res" and "res_ok res"
    and "res_text res = Some (Inr body)"
    and "JSON_parse body = Some j" and "\<not> validShape j"
  shows "\<exists>r. checkUrl fetch url = Some r \<and> status r = novalid \<and>
           (firstRecord j \<noteq> Some JSNull \<longrightarrow>
              details r =
                (if String_includes body (ascii ''_embedded'')
                      \<and> String_includes body (ascii ''records'')
                 then ascii ''json but structure mismatch''
                 else ascii ''no _embedded/records in response''))"
proof -
  have c: "checkUrl fetch url = Some (classifyText body)"
    using checkUrl_body(1) [of fetch url res body] assms(1-3) by simp
  have "firstRecord j \<noteq> Some JSUndefined"
    using firstRecord_defined [OF JSON_parse_defined [OF assms(4)]] by blast
  then have "inspect j = (if firstRecord j = Some JSNull then None else Some mismatch)"
    using inspect_invalid [OF assms(5)] by simp
  with assms(4) show ?thesis
    unfolding c by (simp add: classifyText_def classifyJson_def mismatch_def)
qed

theorem checkUrl_mismatch_witness:
  "checkUrl (respondWith 200 noRecordsBody) sampleUrl =
     Some \<lparr>status = novalid, details = ascii ''json but structure mismatch''\<rparr>"
proof -
  let ?res = "\<lparr>res_status = 200, res_text = Some (Inr noRecordsBody)\<rparr>"
  let ?none = "JSObject [(ascii ''_embedded'', JSObject [(ascii ''records'', JSArray [])])]"
  have r: "respondWith 200 noRecordsBody sampleUrl TIMEOUT_MS = Resolved ?res"
    "res_ok ?res" "res_text ?res = Some (Inr noRecordsBody)"
    by (simp_all add: respondWith_def res_ok_def)
  have p: "JSON_parse noRecordsBody = Some ?none"
    by code_simp
  have v: "\<not> validShape ?none"
    by code_simp
  have i: "String_includes noRecordsBody (ascii ''_embedded'')"
    "String_includes noRecordsBody (ascii ''records'')"
    by code_simp+
  have f: "firstRecord ?none = None"
    by code_simp
  from checkUrl_mismatch [of "respondWith 200 noRecordsBody" sampleUrl ?res noRecordsBody ?none,
          OF r p v]
  show ?thesis
    by (auto simp: i f probe_result.equality)
qed

text \<open>
  When the first record is \<^verbatim>\<open>null\<close>, reading its asset throws a \<^verbatim>\<open>TypeError\<close>, which the
  \<^verbatim>\<open>catch\<close> meant for \<^verbatim>\<open>JSON.parse\<close> takes: the detail says the response is not JSON.
\<close>

lemma checkUrl_null_record:
  "checkUrl (respondWith 200 nullRecordBody) sampleUrl =
     Some \<lparr>status = novalid, details = ascii ''non-json response''\<rparr>"
  by code_simp

text \<open>
  Claim C8 as stated gives every body that parses as JSON and is not of the valid shape the
  detail \<^verbatim>\<open>structure mismatch\<close>. The body \<^verbatim>\<open>{}\<close> parses, is not of the valid shape, and gets
  the detail \<^verbatim>\<open>no _embedded/records in response\<close>, which is neither that string nor the
  \<^verbatim>\<open>json but structure mismatch\<close> of the code's shape check.
\<close>

theorem checkUrl_mismatch_other_detail:
  "JSON_parse emptyObjectBody = Some (JSObject []) \<and>
   \<not> hasAssetAndAmount (JSObject []) \<and> \<not> validShape (JSObject []) \<and>
   checkUrl (respondWith 200 emptyObjectBody) sampleUrl =
     Some \<lparr>status = novalid, details = ascii ''no _embedded/records in response''\<rparr> \<and>
   ascii ''no _embedded/records in response'' \<noteq> ascii ''structure mismatch'' \<and>
   ascii ''no _embedded/records in response'' \<noteq> ascii ''json but structure mismatch''"
  by code_simp

text \<open>
  Claim C9 (as amended). The substring pre-check can only turn a result into novalid: when
  \<open>checkUrl\<close> says valid, the variant without the pre-check returns the same result; when the
  variant says valid, \<open>checkUrl\<close> returns the same result or novalid with detail
  \<^verbatim>\<open>no _embedded/records in response\<close>; the two agree whenever the body contains both
  substrings; and one returns exactly when the other does.
\<close>

theorem precheck_only_rejects:
  "(map_option status (checkUrl fetch url) = Some valid \<longrightarrow>
      checkUrl_direct fetch url = checkUrl fetch url) \<and>
   (map_option status (checkUrl_direct fetch url) = Some valid \<longrightarrow>
      checkUrl fetch url = checkUrl_direct fetch url \<or>
      checkUrl fetch url =
        Some \<lparr>status = novalid, details = ascii ''no _embedded/records in response''\<rparr>) \<and>
   (\<forall>res body. fetch url TIMEOUT_MS = Resolved res \<and> res_text res = Some (Inr body) \<and>
        String_includes body (ascii ''_embedded'') \<and> String_includes body (ascii ''records'')
      \<longrightarrow> checkUrl fetch url = checkUrl_direct fetch url) \<and>
   (checkUrl fetch url = None \<longleftrightarrow> checkUrl_direct fetch url = None)"
proof (cases "\<exists>res body. fetch url TIMEOUT_MS = Resolved res \<and> res_ok res
                \<and> res_text res = Some (Inr body)")
  case False
  then have "checkUrl_direct fetch url = checkUrl fetch url"
    by (rule checkUrl_no_body)
  then show ?thesis by simp
next
  case True
  then obtain res body where r: "fetch url TIMEOUT_MS = Resolved res" "res_ok res"
    "res_text res = Some (Inr body)"
    by blast
  have c: "checkUrl fetch url = Some (classifyText body)"
    "checkUrl_direct fetch url = Some (classifyJson body)"
    using checkUrl_body [of fetch url res body] r by simp_all
  show ?thesis
    unfolding c using r(1,3) by (auto simp: classifyText_def)
qed

theorem precheck_only_rejects_witness:
  "map_option status (checkUrl (respondWith 200 balanceBody) sampleUrl) = Some valid \<and>
   checkUrl_direct (respondWith 200 balanceBody) sampleUrl
     = checkUrl (respondWith 200 balanceBody) sampleUrl"
proof -
  have "map_option status (checkUrl (respondWith 200 balanceBody) sampleUrl) = Some valid"
    by code_simp
  with precheck_only_rejects [of "respondWith 200 balanceBody" sampleUrl]
  show ?thesis by simp
qed

text \<open>
  Claim C9 as stated fails on a body whose key \<^verbatim>\<open>_embedded\<close> is written with an escape: the
  body does not contain the substring, \<open>checkUrl\<close> says novalid, and the variant without the
  pre-check says valid.
\<close>

theorem precheck_changes_status:
  "map_option status (checkUrl (respondWith 200 escapedKeyBody) sampleUrl) = Some novalid \<and>
   map_option status (checkUrl_direct (respondWith 200 escapedKeyBody) sampleUrl) = Some valid"
  by code_simp

text \<open>
  Claim C4 (as amended). When the timer fires first, \<open>checkUrl\<close> returns timeout with detail
  \<^verbatim>\<open>fetch timeout\<close>. When the request, or the reading of the body, fails with an error not
  named \<^verbatim>\<open>AbortError\<close>, it returns timeout with the error's message as detail, or with
  \<^verbatim>\<open>String(err)\<close>, here the error's name, when the message is empty. In each case the result
  is a classification, not an exception.
\<close>

theorem checkUrl_errors:
  "(fetch url TIMEOUT_MS = TimerFired \<longrightarrow>
      checkUrl fetch url = Some \<lparr>status = timeout, details = ascii ''fetch timeout''\<rparr>) \<and>
   (\<forall>err. (fetch url TIMEOUT_MS = Rejected err \<or>
           (\<exists>res. fetch url TIMEOUT_MS = Resolved res \<and> res_ok res
                  \<and> res_text res = Some (Inl err))) \<and>
          name err \<noteq> ascii ''AbortError'' \<longrightarrow>
      checkUrl fetch url =
        Some \<lparr>status = timeout,
              details = (if message err \<noteq> [] then message err else name err)\<rparr>)"
  by (auto simp: checkUrl_def fetchWithTimeout_def onError_def AbortError_def Error_toString_def)

theorem checkUrl_errors_witness:
  "checkUrl neverAnswers sampleUrl
     = Some \<lparr>status = timeout, details = ascii ''fetch timeout''\<rparr> \<and>
   checkUrl (rejectWith \<lparr>name = ascii ''TypeError'', message = ascii ''fetch failed''\<rparr>) sampleUrl
     = Some \<lparr>status = timeout, details = ascii ''fetch failed''\<rparr>"
proof -
  have "neverAnswers sampleUrl TIMEOUT_MS = TimerFired"
    by (simp add: neverAnswers_def)
  moreover have
    "rejectWith \<lparr>name = ascii ''TypeError'', message = ascii ''fetch failed''\<rparr> sampleUrl TIMEOUT_MS
       = Rejected \<lparr>name = ascii ''TypeError'', message = ascii ''fetch failed''\<rparr>"
    by (simp add: rejectWith_def)
  moreover have "ascii ''TypeError'' \<noteq> ascii ''AbortError''" "ascii ''fetch failed'' \<noteq> []"
    by (simp_all add: ascii_def)
  ultimately show ?thesis
    using checkUrl_errors [of neverAnswers sampleUrl]
      checkUrl_errors [of "rejectWith \<lparr>name = ascii ''TypeError'', message = ascii ''fetch failed''\<rparr>"
        sampleUrl]
    by auto
qed

text \<open>
  Claim C4 as stated gives the error's message as the detail of every other failure. For an
  error with an empty message the detail is the error's name.
\<close>

theorem checkUrl_empty_message:
  "checkUrl (rejectWith \<lparr>name = ascii ''TypeError'', message = []\<rparr>) sampleUrl
     = Some \<lparr>status = timeout, details = ascii ''TypeError''\<rparr> \<and>
   ascii ''TypeError'' \<noteq> message \<lparr>name = ascii ''TypeError'', message = []\<rparr>"
  by code_simp

section \<open>Properties of the driver\<close>


lemma serverLoop_append:
  "serverLoop env wallets (xs @ ys) st =
     (case serverLoop env wallets xs st of
        (st', Normal) \<Rightarrow> serverLoop env wallets ys st'
      | (st', c) \<Rightarrow> (st', c))"
  by (induction xs arbitrary: st) (auto split: prod.splits completion.splits)

lemma walletBody_validList:
  "set (validList st) \<subseteq> set (validList (fst (walletBody env server wallet st)))"
  by (auto simp: walletBody_def Let_def split: sum.splits option.splits)

lemma walletLoop_validList:
  "set (validList st) \<subseteq> set (validList (fst (walletLoop env server ws st)))"
proof (induction ws arbitrary: st)
  case Nil
  show ?case by simp
next
  case (Cons w ws)
  obtain st' c where b: "walletBody env server w st = (st', c)"
    by (cases "walletBody env server w st")
  with walletBody_validList [of st env server w] have "set (validList st) \<subseteq> set (validList st')"
    by simp
  with Cons.IH [of st'] b show ?case
    by (cases c) auto
qed

lemma serverBody_validList:
  "set (validList st) \<subseteq> set (validList (fst (serverBody env wallets server st)))"
  using walletLoop_validList [of st env server wallets]
  by (auto simp: serverBody_def split: prod.splits completion.splits)

lemma serverLoop_validList:
  "set (validList st) \<subseteq> set (validList (fst (serverLoop env wallets ss st)))"
proof (induction ss arbitrary: st)
  case Nil
  show ?case by simp
next
  case (Cons s ss)
  obtain st' c where b: "serverBody env wallets s st = (st', c)"
    by (cases "serverBody env wallets s st")
  with serverBody_validList [of st env wallets s] have "set (validList st) \<subseteq> set (validList st')"
    by simp
  with Cons.IH [of st'] b show ?case
    by (cases c) auto
qed

text \<open>
  Claim C2. A server that is in the valid list when its turn comes is skipped: the iteration
  leaves the whole state as it is (no probe, no line in any file, no counter changed). The
  list only grows during a run, so this holds for every server of the list loaded at startup,
  wherever the server stands in \<^verbatim>\<open>servers.txt\<close>: the run is the run without that server.
\<close>

theorem listed_server_skipped:
  assumes "server \<in> set (validList st)"
  shows "serverBody env wallets server st = (st, Normal) \<and>
         serverLoop env wallets (pre @ server # post) st = serverLoop env wallets (pre @ post) st"
proof
  show "serverBody env wallets server st = (st, Normal)"
    using assms by (simp add: serverBody_def)
next
  obtain st' c where p: "serverLoop env wallets pre st = (st', c)"
    by (cases "serverLoop env wallets pre st")
  with serverLoop_validList [of st env wallets pre] assms have "server \<in> set (validList st')"
    by auto
  then have "serverBody env wallets server st' = (st', Normal)"
    by (simp add: serverBody_def)
  then have "serverLoop env wallets (server # post) st' = serverLoop env wallets post st'"
    by simp
  with p show "serverLoop env wallets (pre @ server # post) st
                 = serverLoop env wallets (pre @ post) st"
    by (simp add: serverLoop_append split: completion.splits)
qed

theorem listed_server_skipped_witness:
  "serverBody alwaysValid [ascii ''W1''] (ascii ''a.example'')
     (initial Map.empty [ascii ''a.example''])
     = (initial Map.empty [ascii ''a.example''], Normal) \<and>
   serverLoop alwaysValid [ascii ''W1''] [ascii ''a.example'']
     (initial Map.empty [ascii ''a.example''])
     = (initial Map.empty [ascii ''a.example''], Normal)"
  using listed_server_skipped [of "ascii ''a.example''" "initial Map.empty [ascii ''a.example'']"
          alwaysValid "[ascii ''W1'']" "[]" "[]"]
  by (simp add: initial_def)


lemma buildUrl_samples:
  "buildUrl (ascii ''a.example'') (ascii ''W1'') = Inr sampleUrl"
  "buildUrl (ascii ''a.example'') (ascii ''W2'')
     = Inr (ascii ''http://a.example:31401/claimable_balances?claimant=W2'')"
  by (simp_all add: buildUrl_def decimal_DEFAULT_PORT andThen_def uriUnreserved_def sampleUrl_def
        ascii_def)

lemma alwaysValid_probe:
  "checkUrl (net alwaysValid h) url = Some \<lparr>status = valid, details = ascii ''amount=5''\<rparr>"
  "checkUrl (net alwaysValidReadOnly h) url
     = Some \<lparr>status = valid, details = ascii ''amount=5''\<rparr>"
  by (simp_all add: alwaysValid_def alwaysValidReadOnly_def checkUrl_def fetchWithTimeout_def
        respondWith_def res_ok_def classifyText_balanceBody)


subsection \<open>The counters\<close>

text \<open>
  The ways of an iteration of the wallet loop, each with its points: the URL cannot be built;
  the probe never returns, or the writing of its line never ends; the result line cannot be
  written; and the three results written and counted.
\<close>

lemma walletBody_cases:
  obtains (noUrl) err where "buildUrl server wallet = Inl err"
      and "walletBody env server wallet st = (st, Throw err)"
      and "walletPoints env server wallet st = []"
  | (stalled) url where "buildUrl server wallet = Inr url"
      and "walletBody env server wallet st = (st\<lparr>probes := probes st @ [url]\<rparr>, Pending)"
      and "walletPoints env server wallet st = [st\<lparr>probes := probes st @ [url]\<rparr>]"
  | (unwritten) url err where "buildUrl server wallet = Inr url"
      and "walletBody env server wallet st = (st\<lparr>probes := probes st @ [url]\<rparr>, Throw err)"
      and "walletPoints env server wallet st = [st\<lparr>probes := probes st @ [url]\<rparr>]"
  | (foundValid) url st1 fs' where "buildUrl server wallet = Inr url"
      and "st1 = st\<lparr>probes := probes st @ [url]\<rparr>"
      and "fs' = appended (files st) valid_txt (server @ [10])"
      and "walletBody env server wallet st =
             (st1\<lparr>files := fs', validList := validList st @ [server],
                  stats_valid := stats_valid st + 1\<rparr>, Break)"
      and "walletPoints env server wallet st =
             [st1, st1\<lparr>files := fs'\<rparr>,
              st1\<lparr>files := fs', validList := validList st @ [server]\<rparr>,
              st1\<lparr>files := fs', validList := validList st @ [server],
                  stats_valid := stats_valid st + 1\<rparr>]"
  | (foundNovalid) url st1 fs' line where "buildUrl server wallet = Inr url"
      and "st1 = st\<lparr>probes := probes st @ [url]\<rparr>"
      and "fs' = appended (files st) novalid_txt line"
      and "walletBody env server wallet st =
             (st1\<lparr>files := fs', stats_novalid := stats_novalid st + 1\<rparr>, Normal)"
      and "walletPoints env server wallet st =
             [st1, st1\<lparr>files := fs'\<rparr>,
              st1\<lparr>files := fs', stats_novalid := stats_novalid st + 1\<rparr>]"
  | (foundTimeout) url st1 fs' line where "buildUrl server wallet = Inr url"
      and "st1 = st\<lparr>probes := probes st @ [url]\<rparr>"
      and "fs' = appended (files st) timeout_txt line"
      and "walletBody env server wallet st =
             (st1\<lparr>files := fs', stats_timeout := stats_timeout st + 1\<rparr>, Normal)"
      and "walletPoints env server wallet st =
             [st1, st1\<lparr>files := fs'\<rparr>,
              st1\<lparr>files := fs', stats_timeout := stats_timeout st + 1\<rparr>]"
proof (cases "buildUrl server wallet")
  case (Inl err)
  then have "walletBody env server wallet st = (st, Throw err)"
    "walletPoints env server wallet st = []"
    by (simp_all add: walletBody_def walletPoints_def)
  with Inl show ?thesis by (rule noUrl)
next
  case (Inr url)
  show ?thesis
  proof (cases "checkUrl (net env (probes st)) url")
    case None
    with Inr have
      "walletBody env server wallet st = (st\<lparr>probes := probes st @ [url]\<rparr>, Pending)"
      "walletPoints env server wallet st = [st\<lparr>probes := probes st @ [url]\<rparr>]"
      by (simp_all add: walletBody_def walletPoints_def Let_def)
    with Inr show ?thesis by (rule stalled)
  next
    case (Some result)
    show ?thesis
    proof (cases "status result")
      case valid
      show ?thesis
      proof (cases "disk env valid_txt (server @ [10]) (files st)")
        case Written
        with Inr Some valid have
          "walletBody env server wallet st =
             (st\<lparr>probes := probes st @ [url]\<rparr>
                \<lparr>files := appended (files st) valid_txt (server @ [10]),
                 validList := validList st @ [server],
                 stats_valid := stats_valid st + 1\<rparr>, Break)"
          "walletPoints env server wallet st =
             [st\<lparr>probes := probes st @ [url]\<rparr>,
              st\<lparr>probes := probes st @ [url]\<rparr>
                \<lparr>files := appended (files st) valid_txt (server @ [10])\<rparr>,
              st\<lparr>probes := probes st @ [url]\<rparr>
                \<lparr>files := appended (files st) valid_txt (server @ [10]),
                 validList := validList st @ [server]\<rparr>,
              st\<lparr>probes := probes st @ [url]\<rparr>
                \<lparr>files := appended (files st) valid_txt (server @ [10]),
                 validList := validList st @ [server],
                 stats_valid := stats_valid st + 1\<rparr>]"
          by (simp_all add: walletBody_def walletPoints_def Let_def appendFile_def)
        with Inr show ?thesis by (intro foundValid [OF _ refl refl])
      next
        case (Failed err)
        with Inr Some valid have
          "walletBody env server wallet st = (st\<lparr>probes := probes st @ [url]\<rparr>, Throw err)"
          "walletPoints env server wallet st = [st\<lparr>probes := probes st @ [url]\<rparr>]"
          by (simp_all add: walletBody_def walletPoints_def Let_def appendFile_def)
        with Inr show ?thesis by (rule unwritten)
      next
        case Unsettled
        with Inr Some valid have
          "walletBody env server wallet st = (st\<lparr>probes := probes st @ [url]\<rparr>, Pending)"
          "walletPoints env server wallet st = [st\<lparr>probes := probes st @ [url]\<rparr>]"
          by (simp_all add: walletBody_def walletPoints_def Let_def appendFile_def)
        with Inr show ?thesis by (rule stalled)
      qed
    next
      case novalid
      let ?line = "server @ ascii ''|'' @ wallet @ ascii ''|'' @ details result @ [10]"
      show ?thesis
      proof (cases "disk env novalid_txt ?line (files st)")
        case Written
        with Inr Some novalid have
          "walletBody env server wallet st =
             (st\<lparr>probes := probes st @ [url]\<rparr>
                \<lparr>files := appended (files st) novalid_txt ?line,
                 stats_novalid := stats_novalid st + 1\<rparr>, Normal)"
          "walletPoints env server wallet st =
             [st\<lparr>probes := probes st @ [url]\<rparr>,
              st\<lparr>probes := probes st @ [url]\<rparr>\<lparr>files := appended (files st) novalid_txt ?line\<rparr>,
              st\<lparr>probes := probes st @ [url]\<rparr>
                \<lparr>files := appended (files st) novalid_txt ?line,
                 stats_novalid := stats_novalid st + 1\<rparr>]"
          by (simp_all add: walletBody_def walletPoints_def Let_def appendFile_def)
        with Inr show ?thesis by (intro foundNovalid [OF _ refl refl])
      next
        case (Failed err)
        with Inr Some novalid have
          "walletBody env server wallet st = (st\<lparr>probes := probes st @ [url]\<rparr>, Throw err)"
          "walletPoints env server wallet st = [st\<lparr>probes := probes st @ [url]\<rparr>]"
          by (simp_all add: walletBody_def walletPoints_def Let_def appendFile_def)
        with Inr show ?thesis by (rule unwritten)
      next
        case Unsettled
        with Inr Some novalid have
          "walletBody env server wallet st = (st\<lparr>probes := probes st @ [url]\<rparr>, Pending)"
          "walletPoints env server wallet st = [st\<lparr>probes := probes st @ [url]\<rparr>]"
          by (simp_all add: walletBody_def walletPoints_def Let_def appendFile_def)
        with Inr show ?thesis by (rule stalled)
      qed
    next
      case timeout
      let ?line = "server @ ascii ''|'' @ details result @ [10]"
      show ?thesis
      proof (cases "disk env timeout_txt ?line (files st)")
        case Written
        with Inr Some timeout have
          "walletBody env server wallet st =
             (st\<lparr>probes := probes st @ [url]\<rparr>
                \<lparr>files := appended (files st) timeout_txt ?line,
                 stats_timeout := stats_timeout st + 1\<rparr>, Normal)"
          "walletPoints env server wallet st =
             [st\<lparr>probes := probes st @ [url]\<rparr>,
              st\<lparr>probes := probes st @ [url]\<rparr>\<lparr>files := appended (files st) timeout_txt ?line\<rparr>,
              st\<lparr>probes := probes st @ [url]\<rparr>
                \<lparr>files := appended (files st) timeout_txt ?line,
                 stats_timeout := stats_timeout st + 1\<rparr>]"
          by (simp_all add: walletBody_def walletPoints_def Let_def appendFile_def)
        with Inr show ?thesis by (intro foundTimeout [OF _ refl refl])
      next
        case (Failed err)
        with Inr Some timeout have
          "walletBody env server wallet st = (st\<lparr>probes := probes st @ [url]\<rparr>, Throw err)"
          "walletPoints env server wallet st = [st\<lparr>probes := probes st @ [url]\<rparr>]"
          by (simp_all add: walletBody_def walletPoints_def Let_def appendFile_def)
        with Inr show ?thesis by (rule unwritten)
      next
        case Unsettled
        with Inr Some timeout have
          "walletBody env server wallet st = (st\<lparr>probes := probes st @ [url]\<rparr>, Pending)"
          "walletPoints env server wallet st = [st\<lparr>probes := probes st @ [url]\<rparr>]"
          by (simp_all add: walletBody_def walletPoints_def Let_def appendFile_def)
        with Inr show ?thesis by (rule stalled)
      qed
    qed
  qed
qed

text \<open>
  The points of an iteration end with the state in which the iteration ends, and so do those
  of the loops and of \<^verbatim>\<open>main\<close>.
\<close>

lemma walletPoints_last:
  "last (st # walletPoints env server wallet st) = fst (walletBody env server wallet st)"
  by (cases rule: walletBody_cases
              [where server = server and wallet = wallet and env = env and st = st])
     simp_all

lemma walletLoopPoints_last:
  "last (st # walletLoopPoints env server ws st) = fst (walletLoop env server ws st)"
proof (induction ws arbitrary: st)
  case Nil
  show ?case by simp
next
  case (Cons w ws)
  obtain st' c where b: "walletBody env server w st = (st', c)"
    by (cases "walletBody env server w st")
  with walletPoints_last [of st env server w] have l: "last (st # walletPoints env server w st) = st'"
    by simp
  show ?case
  proof (cases "c = Normal")
    case True
    have "last (st # walletPoints env server w st @ walletLoopPoints env server ws st')
            = last (st' # walletLoopPoints env server ws st')"
      using l by (cases "walletLoopPoints env server ws st'") (auto simp: last_append)
    with True b Cons.IH [of st'] show ?thesis by simp
  next
    case False
    with b l show ?thesis by (cases c) simp_all
  qed
qed

lemma serverPoints_last:
  "last (st # serverPoints env wallets server st) = fst (serverBody env wallets server st)"
  using walletLoopPoints_last [of st env server wallets]
  by (auto simp: serverPoints_def serverBody_def split: prod.splits completion.splits)

lemma serverLoopPoints_last:
  "last (st # serverLoopPoints env wallets ss st) = fst (serverLoop env wallets ss st)"
proof (induction ss arbitrary: st)
  case Nil
  show ?case by simp
next
  case (Cons s ss)
  obtain st' c where b: "serverBody env wallets s st = (st', c)"
    by (cases "serverBody env wallets s st")
  with serverPoints_last [of st env wallets s]
  have l: "last (st # serverPoints env wallets s st) = st'"
    by simp
  show ?case
  proof (cases "c = Normal")
    case True
    have "last (st # serverPoints env wallets s st @ serverLoopPoints env wallets ss st')
            = last (st' # serverLoopPoints env wallets ss st')"
      using l by (cases "serverLoopPoints env wallets ss st'") (auto simp: last_append)
    with True b Cons.IH [of st'] show ?thesis by simp
  next
    case False
    with b l show ?thesis by (cases c) simp_all
  qed
qed

text \<open>What an iteration of the wallet loop does to the probes and the counters.\<close>

lemma walletBody_completed:
  assumes "walletBody env server wallet st = (st', c)" and "c = Normal \<or> c = Break"
  shows "(\<exists>url. buildUrl server wallet = Inr url \<and> probes st' = probes st @ [url])
         \<and> oneCounterUp st st'"
  using assms
  by (cases rule: walletBody_cases
              [where server = server and wallet = wallet and env = env and st = st])
     (auto simp: oneCounterUp_def)

lemma walletBody_cut_short:
  assumes "walletBody env server wallet st = (st', c)" and "c \<noteq> Normal" and "c \<noteq> Break"
  shows "stats_valid st' = stats_valid st \<and> stats_novalid st' = stats_novalid st
         \<and> stats_timeout st' = stats_timeout st"
  using assms
  by (cases rule: walletBody_cases
              [where server = server and wallet = wallet and env = env and st = st])
     auto

lemma walletBody_counters:
  assumes "countersMatch st" and "walletBody env server wallet st = (st', c)"
  shows "countersLag st' \<and> (c = Normal \<or> c = Break \<longrightarrow> countersMatch st')"
  using assms
  by (cases rule: walletBody_cases
              [where server = server and wallet = wallet and env = env and st = st])
     (auto simp: countersMatch_def countersLag_def)

lemma walletPoints_lag:
  assumes "countersMatch st" and "p \<in> set (walletPoints env server wallet st)"
  shows "countersLag p"
  using assms
  by (cases rule: walletBody_cases
              [where server = server and wallet = wallet and env = env and st = st])
     (auto simp: countersMatch_def countersLag_def)

lemma walletLoop_counters:
  assumes "countersMatch st" and "walletLoop env server ws st = (st', c)"
  shows "countersLag st' \<and> (c = Normal \<or> c = Break \<longrightarrow> countersMatch st')"
  using assms
proof (induction ws arbitrary: st)
  case Nil
  then show ?case by (auto simp: countersMatch_def countersLag_def)
next
  case (Cons w ws)
  obtain st1 c1 where b: "walletBody env server w st = (st1, c1)"
    by (cases "walletBody env server w st")
  from walletBody_counters [OF Cons.prems(1) b]
  have 1: "countersLag st1" "c1 = Normal \<or> c1 = Break \<Longrightarrow> countersMatch st1"
    by simp_all
  show ?case
  proof (cases "c1 = Normal")
    case True
    with b Cons.prems(2) have "walletLoop env server ws st1 = (st', c)" by simp
    from Cons.IH [OF 1(2) this] True show ?thesis by simp
  next
    case False
    with b Cons.prems(2) have "st' = st1" "c = c1" by (cases c1; simp)+
    with 1 show ?thesis by simp
  qed
qed

lemma walletLoopPoints_lag:
  "countersMatch st \<Longrightarrow> p \<in> set (walletLoopPoints env server ws st) \<Longrightarrow> countersLag p"
proof (induction ws arbitrary: st)
  case Nil
  then show ?case by simp
next
  case (Cons w ws)
  obtain st1 c1 where b: "walletBody env server w st = (st1, c1)"
    by (cases "walletBody env server w st")
  from Cons.prems(2) b consider "p \<in> set (walletPoints env server w st)"
    | "c1 = Normal" "p \<in> set (walletLoopPoints env server ws st1)"
    by (cases c1) auto
  then show ?case
  proof cases
    case 1
    with Cons.prems(1) show ?thesis by (rule walletPoints_lag)
  next
    case 2
    from walletBody_counters [OF Cons.prems(1) b] 2(1) have "countersMatch st1" by simp
    from Cons.IH [OF this 2(2)] show ?thesis .
  qed
qed

lemma serverBody_counters:
  assumes "countersMatch st" and "serverBody env wallets server st = (st', c)"
  shows "countersLag st' \<and> (c = Normal \<longrightarrow> countersMatch st')"
proof (cases "server \<in> set (validList st)")
  case True
  with assms show ?thesis by (auto simp: serverBody_def countersMatch_def countersLag_def)
next
  case False
  obtain st1 c1 where l: "walletLoop env server wallets st = (st1, c1)"
    by (cases "walletLoop env server wallets st")
  from walletLoop_counters [OF assms(1) l] False assms(2) l show ?thesis
    by (cases c1) (auto simp: serverBody_def)
qed

lemma serverLoop_counters:
  assumes "countersMatch st" and "serverLoop env wallets ss st = (st', c)"
  shows "countersLag st' \<and> (c = Normal \<longrightarrow> countersMatch st')"
  using assms
proof (induction ss arbitrary: st)
  case Nil
  then show ?case by (auto simp: countersMatch_def countersLag_def)
next
  case (Cons s ss)
  obtain st1 c1 where b: "serverBody env wallets s st = (st1, c1)"
    by (cases "serverBody env wallets s st")
  from serverBody_counters [OF Cons.prems(1) b]
  have 1: "countersLag st1" "c1 = Normal \<Longrightarrow> countersMatch st1"
    by simp_all
  show ?case
  proof (cases "c1 = Normal")
    case True
    with b Cons.prems(2) have "serverLoop env wallets ss st1 = (st', c)" by simp
    from Cons.IH [OF 1(2) this] True show ?thesis by simp
  next
    case False
    with b Cons.prems(2) have "st' = st1" "c = c1" by (cases c1; simp)+
    with 1 False show ?thesis by simp
  qed
qed

lemma serverLoopPoints_lag:
  "countersMatch st \<Longrightarrow> p \<in> set (serverLoopPoints env wallets ss st) \<Longrightarrow> countersLag p"
proof (induction ss arbitrary: st)
  case Nil
  then show ?case by simp
next
  case (Cons s ss)
  obtain st1 c1 where b: "serverBody env wallets s st = (st1, c1)"
    by (cases "serverBody env wallets s st")
  from Cons.prems(2) b consider "p \<in> set (serverPoints env wallets s st)"
    | "c1 = Normal" "p \<in> set (serverLoopPoints env wallets ss st1)"
    by (cases c1) auto
  then show ?case
  proof cases
    case 1
    with Cons.prems(1) show ?thesis
      by (auto simp: serverPoints_def split: if_splits intro: walletLoopPoints_lag)
  next
    case 2
    from serverBody_counters [OF Cons.prems(1) b] 2(1) have "countersMatch st1" by simp
    from Cons.IH [OF this 2(2)] show ?thesis .
  qed
qed

lemma initial_countersMatch: "countersMatch (initial fs vl)"
  by (simp add: countersMatch_def initial_def)

text \<open>
  The three ways of \<^verbatim>\<open>main\<close>: a fatal setup failure, truncating writes that fail or never
  end, or the loop over the servers from the initial state.
\<close>

lemma main_cases:
  obtains (early) "main env fs = (Some 1, initial fs [])" and "mainPoints env fs = []"
  | (truncation) fs' vl where "fs' = fst (truncateBoth (disk env) fs)"
      and "vl = (case fs valid_txt of None \<Rightarrow> [] | Some existing \<Rightarrow> parseList existing)"
      and "main env fs = (Some 1, initial fs' vl) \<or> main env fs = (None, initial fs' vl)"
      and "mainPoints env fs = []"
  | (loop) wallets serversRaw fs' vl where "fs' = fst (truncateBoth (disk env) fs)"
      and "vl = (case fs valid_txt of None \<Rightarrow> [] | Some existing \<Rightarrow> parseList existing)"
      and "main env fs =
         (case serverLoop env wallets (parseList serversRaw) (initial fs' vl) of
            (st, Throw err) \<Rightarrow> (Some 1, st)
          | (st, Pending) \<Rightarrow> (None, st)
          | (st, c) \<Rightarrow> (Some 0, st))"
      and "mainPoints env fs =
             initial fs' vl # serverLoopPoints env wallets (parseList serversRaw) (initial fs' vl)"
proof (cases "fs SERVERS_FILE")
  case None
  then have "main env fs = (Some 1, initial fs [])" "mainPoints env fs = []"
    by (simp_all add: main_def mainPoints_def)
  then show ?thesis by (rule early)
next
  case s: (Some serversRaw)
  show ?thesis
  proof (cases "fs WALLETS_FILE")
    case None
    with s have "main env fs = (Some 1, initial fs [])" "mainPoints env fs = []"
      by (simp_all add: main_def mainPoints_def)
    then show ?thesis by (rule early)
  next
    case w: (Some walletsRaw)
    show ?thesis
    proof (cases "parseList serversRaw = [] \<or> parseList walletsRaw = []")
      case True
      with s w have "main env fs = (Some 1, initial fs [])" "mainPoints env fs = []"
        by (auto simp: main_def mainPoints_def Let_def)
      then show ?thesis by (rule early)
    next
      case False
      obtain fs' e where t: "truncateBoth (disk env) fs = (fs', e)"
        by (cases "truncateBoth (disk env) fs")
      then have fs': "fs' = fst (truncateBoth (disk env) fs)"
        by simp
      show ?thesis
      proof (cases e)
        case Normal
        with s w False t have m:
          "main env fs =
             (case serverLoop env (parseList walletsRaw) (parseList serversRaw)
                     (initial fs' (case fs valid_txt of None \<Rightarrow> []
                                   | Some existing \<Rightarrow> parseList existing)) of
                (st, Throw err) \<Rightarrow> (Some 1, st)
              | (st, Pending) \<Rightarrow> (None, st)
              | (st, c) \<Rightarrow> (Some 0, st))"
          "mainPoints env fs =
             initial fs' (case fs valid_txt of None \<Rightarrow> [] | Some existing \<Rightarrow> parseList existing)
             # serverLoopPoints env (parseList walletsRaw) (parseList serversRaw)
                 (initial fs' (case fs valid_txt of None \<Rightarrow> []
                               | Some existing \<Rightarrow> parseList existing))"
          by (simp_all add: main_def mainPoints_def Let_def del: One_nat_def)
        show ?thesis by (rule loop [OF fs' refl m])
      next
        case Break
        with s w False t have m:
          "main env fs =
             (case serverLoop env (parseList walletsRaw) (parseList serversRaw)
                     (initial fs' (case fs valid_txt of None \<Rightarrow> []
                                   | Some existing \<Rightarrow> parseList existing)) of
                (st, Throw err) \<Rightarrow> (Some 1, st)
              | (st, Pending) \<Rightarrow> (None, st)
              | (st, c) \<Rightarrow> (Some 0, st))"
          "mainPoints env fs =
             initial fs' (case fs valid_txt of None \<Rightarrow> [] | Some existing \<Rightarrow> parseList existing)
             # serverLoopPoints env (parseList walletsRaw) (parseList serversRaw)
                 (initial fs' (case fs valid_txt of None \<Rightarrow> []
                               | Some existing \<Rightarrow> parseList existing))"
          by (simp_all add: main_def mainPoints_def Let_def del: One_nat_def)
        show ?thesis by (rule loop [OF fs' refl m])
      next
        case (Throw err)
        with s w False t have m:
          "main env fs = (Some 1, initial fs' (case fs valid_txt of None \<Rightarrow> []
                                                | Some existing \<Rightarrow> parseList existing))"
          "mainPoints env fs = []"
          by (simp_all add: main_def mainPoints_def Let_def)
        show ?thesis by (rule truncation [OF fs' refl disjI1 [OF m(1)] m(2)])
      next
        case Pending
        with s w False t have m:
          "main env fs = (None, initial fs' (case fs valid_txt of None \<Rightarrow> []
                                              | Some existing \<Rightarrow> parseList existing))"
          "mainPoints env fs = []"
          by (simp_all add: main_def mainPoints_def Let_def)
        show ?thesis by (rule truncation [OF fs' refl disjI2 [OF m(1)] m(2)])
      qed
    qed
  qed
qed

lemma serverLoop_no_Break: "snd (serverLoop env ws ss st) \<noteq> Break"
proof (induction ss arbitrary: st)
  case Nil
  show ?case by simp
next
  case (Cons s ss)
  obtain st1 c1 where b: "serverBody env ws s st = (st1, c1)"
    by (cases "serverBody env ws s st")
  then have "c1 \<noteq> Break"
    by (auto simp: serverBody_def split: prod.splits completion.splits if_splits)
  with b Cons [of st1] show ?case
    by (cases c1) simp_all
qed

lemma mainPoints_last:
  "mainPoints env fs \<noteq> [] \<Longrightarrow> last (mainPoints env fs) = snd (main env fs)"
proof (cases env fs rule: main_cases)
  case (loop wallets serversRaw fs' vl)
  have "snd (main env fs) = fst (serverLoop env wallets (parseList serversRaw) (initial fs' vl))"
    unfolding loop(3)
    by (cases "serverLoop env wallets (parseList serversRaw) (initial fs' vl)";
        cases "snd (serverLoop env wallets (parseList serversRaw) (initial fs' vl))") simp_all
  then show ?thesis
    unfolding loop(4) using serverLoopPoints_last [of "initial fs' vl" env wallets "parseList serversRaw"]
    by simp
qed simp_all

lemma mainPoints_lag: "p \<in> set (mainPoints env fs) \<Longrightarrow> countersLag p"
proof (cases env fs rule: main_cases)
  case (loop wallets serversRaw fs' vl)
  assume "p \<in> set (mainPoints env fs)"
  with loop(4) consider "p = initial fs' vl"
    | "p \<in> set (serverLoopPoints env wallets (parseList serversRaw) (initial fs' vl))"
    by auto
  then show ?thesis
  proof cases
    case 1
    then show ?thesis by (simp add: countersLag_def initial_def)
  next
    case 2
    with initial_countersMatch show ?thesis by (rule serverLoopPoints_lag)
  qed
qed simp_all

lemma main_counters:
  "countersLag (snd (main env fs))
   \<and> (fst (main env fs) = Some 0 \<longrightarrow> countersMatch (snd (main env fs)))"
proof (cases env fs rule: main_cases)
  case early
  then show ?thesis by (simp add: countersLag_def initial_def)
next
  case (truncation fs' vl)
  from truncation(3) show ?thesis by (auto simp: countersLag_def initial_def)
next
  case (loop wallets serversRaw fs' vl)
  obtain st c where l: "serverLoop env wallets (parseList serversRaw) (initial fs' vl) = (st, c)"
    by (cases "serverLoop env wallets (parseList serversRaw) (initial fs' vl)")
  from serverLoop_counters [OF initial_countersMatch l]
    serverLoop_no_Break [of env wallets "parseList serversRaw" "initial fs' vl"] l
  show ?thesis
    unfolding loop(3) by (cases c) simp_all
qed

text \<open>
  Claim C6 (as amended). At every point of a run the three counters together count the probes
  issued so far, or all of them but the last one, which is in flight or whose line is being
  written. An iteration of the wallet loop that completes issues one probe and raises exactly
  one counter by one; one that is cut short, by an exception or by a probe or a write that
  never ends, raises none. The counters count all probes after every completed iteration,
  after a wallet loop or server loop that completes, and in the state of a run that exits
  with code 0.
\<close>

theorem counters_count_probes:
  assumes "countersMatch st"
  shows "(\<forall>p \<in> set (walletPoints env server wallet st). countersLag p) \<and>
         (\<forall>p \<in> set (walletLoopPoints env server wallets st). countersLag p) \<and>
         (\<forall>p \<in> set (serverLoopPoints env wallets servers st). countersLag p) \<and>
         (\<forall>p \<in> set (mainPoints env fs). countersLag p) \<and>
         (\<forall>st' c. walletBody env server wallet st = (st', c) \<and> (c = Normal \<or> c = Break) \<longrightarrow>
            (\<exists>url. buildUrl server wallet = Inr url \<and> probes st' = probes st @ [url]) \<and>
            oneCounterUp st st' \<and> countersMatch st') \<and>
         (\<forall>st' c. walletBody env server wallet st = (st', c) \<and> c \<noteq> Normal \<and> c \<noteq> Break \<longrightarrow>
            stats_valid st' = stats_valid st \<and> stats_novalid st' = stats_novalid st \<and>
            stats_timeout st' = stats_timeout st) \<and>
         (\<forall>st' c. walletLoop env server wallets st = (st', c) \<and> (c = Normal \<or> c = Break) \<longrightarrow>
            countersMatch st') \<and>
         (\<forall>st' c. serverLoop env wallets servers st = (st', c) \<and> c = Normal \<longrightarrow>
            countersMatch st') \<and>
         (fst (main env fs) = Some 0 \<longrightarrow> countersMatch (snd (main env fs)))"
proof -
  have "\<forall>p \<in> set (walletPoints env server wallet st). countersLag p"
    using assms walletPoints_lag by blast
  moreover have "\<forall>p \<in> set (walletLoopPoints env server wallets st). countersLag p"
    using assms walletLoopPoints_lag by blast
  moreover have "\<forall>p \<in> set (serverLoopPoints env wallets servers st). countersLag p"
    using assms serverLoopPoints_lag by blast
  moreover have "\<forall>p \<in> set (mainPoints env fs). countersLag p"
    using mainPoints_lag by blast
  moreover have
    "\<forall>st' c. walletBody env server wallet st = (st', c) \<and> (c = Normal \<or> c = Break) \<longrightarrow>
       (\<exists>url. buildUrl server wallet = Inr url \<and> probes st' = probes st @ [url]) \<and>
       oneCounterUp st st' \<and> countersMatch st'"
    using walletBody_completed [of env server wallet st]
      walletBody_counters [OF assms, of env server wallet]
    by blast
  moreover have
    "\<forall>st' c. walletBody env server wallet st = (st', c) \<and> c \<noteq> Normal \<and> c \<noteq> Break \<longrightarrow>
       stats_valid st' = stats_valid st \<and> stats_novalid st' = stats_novalid st \<and>
       stats_timeout st' = stats_timeout st"
    using walletBody_cut_short [of env server wallet st] by blast
  moreover have
    "\<forall>st' c. walletLoop env server wallets st = (st', c) \<and> (c = Normal \<or> c = Break) \<longrightarrow>
       countersMatch st'"
    using walletLoop_counters [OF assms, of env server wallets] by blast
  moreover have
    "\<forall>st' c. serverLoop env wallets servers st = (st', c) \<and> c = Normal \<longrightarrow> countersMatch st'"
    using serverLoop_counters [OF assms, of env wallets servers] by blast
  moreover have "fst (main env fs) = Some 0 \<longrightarrow> countersMatch (snd (main env fs))"
    using main_counters by blast
  ultimately show ?thesis by blast
qed

lemma parseList_samples:
  "parseList (ascii ''a.example'' @ [10]) = [ascii ''a.example'']"
  "parseList (ascii ''W1'' @ [10]) = [ascii ''W1'']"
  "parseList (ascii ''W1'' @ [10] @ ascii ''W2'' @ [10]) = [ascii ''W1'', ascii ''W2'']"
  by code_simp+

lemma scenario_probes:
  "checkUrl (net scenarioEnv h) sampleUrl
     = Some \<lparr>status = novalid, details = ascii ''json but structure mismatch''\<rparr>"
  "checkUrl (net scenarioEnv h) (ascii ''http://a.example:31401/claimable_balances?claimant=W2'')
     = Some \<lparr>status = valid, details = ascii ''amount=5''\<rparr>"
  by code_simp+

lemma scenario_files:
  "scenarioFs SERVERS_FILE = Some (ascii ''a.example'' @ [10])"
  "scenarioFs WALLETS_FILE = Some (ascii ''W1'' @ [10] @ ascii ''W2'' @ [10])"
  "scenarioFs valid_txt = None"
  "parseList (ascii ''W1'' @ 10 # ascii ''W2'' @ [10]) = [ascii ''W1'', ascii ''W2'']"
  using parseList_samples(3) by (simp_all add: scenarioFs_def)

lemma no_write_errors:
  "disk scenarioEnv = noErrors" "disk alwaysValid = noErrors" "disk alwaysStalls = noErrors"
  "truncateBoth noErrors fs = (fs(novalid_txt \<mapsto> [], timeout_txt \<mapsto> []), Normal)"
  "appendFile noErrors fs f s = Some (Inr (appended fs f s))"
  by (simp_all add: scenarioEnv_def alwaysValid_def alwaysStalls_def truncateBoth_def
        writeFile_def appendFile_def written_def noErrors_def)

text \<open>
  The scenario of the specification, run: exit code 0, the server in \<^verbatim>\<open>valid.txt\<close>, one line
  for the first wallet in \<^verbatim>\<open>novalid.txt\<close>, an empty \<^verbatim>\<open>timeout.txt\<close>, and the counters 1, 1, 0.
\<close>

lemma scenario_run:
  "main scenarioEnv scenarioFs =
     (Some 0,
      \<lparr>files = scenarioFs(novalid_txt \<mapsto> ascii ''a.example|W1|json but structure mismatch'' @ [10],
                           timeout_txt \<mapsto> [],
                           valid_txt \<mapsto> ascii ''a.example'' @ [10]),
       validList = [ascii ''a.example''],
       stats_valid = 1, stats_novalid = 1, stats_timeout = 0,
       probes = [sampleUrl,
                 ascii ''http://a.example:31401/claimable_balances?claimant=W2'']\<rparr>)"
proof -
  have a: "ascii ''|'' = [124]" "ascii ''a.example|W1|json but structure mismatch''
     = ascii ''a.example'' @ [124] @ ascii ''W1'' @ [124] @ ascii ''json but structure mismatch''"
    by (simp_all add: ascii_def)
  show ?thesis
    by (simp add: main_def scenario_files parseList_samples serverBody_def walletBody_def
          buildUrl_samples scenario_probes initial_def no_write_errors appended_def a
          fun_upd_twist)
qed

text \<open>
  The first points of that run: the counters are created, and the first probe is issued.
\<close>

lemma scenario_points:
  "take 2 (mainPoints scenarioEnv scenarioFs) =
     [initial (scenarioFs(novalid_txt \<mapsto> [], timeout_txt \<mapsto> [])) [],
      (initial (scenarioFs(novalid_txt \<mapsto> [], timeout_txt \<mapsto> [])) [])\<lparr>probes := [sampleUrl]\<rparr>]"
  by (simp add: mainPoints_def scenario_files parseList_samples serverPoints_def walletPoints_def
        buildUrl_samples scenario_probes initial_def no_write_errors Let_def)

theorem counters_count_probes_witness:
  "countersMatch (initial Map.empty []) \<and>
   list_all countersLag (mainPoints scenarioEnv scenarioFs) \<and>
   countersLag (mainPoints scenarioEnv scenarioFs ! 1) \<and>
   fst (main scenarioEnv scenarioFs) = Some 0 \<and>
   countersMatch (snd (main scenarioEnv scenarioFs))"
proof -
  have i: "countersMatch (initial Map.empty [])"
    by (simp add: countersMatch_def initial_def)
  have e: "fst (main scenarioEnv scenarioFs) = Some 0"
    by (simp add: scenario_run)
  have "mainPoints scenarioEnv scenarioFs ! 1 = take 2 (mainPoints scenarioEnv scenarioFs) ! 1"
    by simp
  then have p: "countersLag (mainPoints scenarioEnv scenarioFs ! 1)"
    unfolding scenario_points by (simp add: countersLag_def initial_def)
  from counters_count_probes [OF i, of scenarioEnv _ _ _ _ scenarioFs] i e p show ?thesis
    by (simp add: list_all_iff)
qed

text \<open>
  Claim C6 as stated (``at every point of a run the sum equals the number of probes issued'')
  fails between the issue of a probe and the increment that follows the two \<^verbatim>\<open>await\<close>s. In the
  scenario of the specification the second point of the run has one probe issued and the
  counters at 0. And when the body of the first response never ends, \<^verbatim>\<open>checkUrl\<close> never
  returns: the run does not exit and stays in a state with one probe and the counters at 0.
\<close>

theorem probe_in_flight_not_counted:
  "length (probes (mainPoints scenarioEnv scenarioFs ! 1)) = 1 \<and>
   stats_valid (mainPoints scenarioEnv scenarioFs ! 1)
     + stats_novalid (mainPoints scenarioEnv scenarioFs ! 1)
     + stats_timeout (mainPoints scenarioEnv scenarioFs ! 1) = 0 \<and>
   \<not> countersMatch (mainPoints scenarioEnv scenarioFs ! 1) \<and>
   main alwaysStalls scenarioFs =
     (None, (initial (scenarioFs(novalid_txt \<mapsto> [], timeout_txt \<mapsto> [])) [])
              \<lparr>probes := [sampleUrl]\<rparr>) \<and>
   \<not> countersMatch (snd (main alwaysStalls scenarioFs))"
proof -
  have "mainPoints scenarioEnv scenarioFs ! 1 = take 2 (mainPoints scenarioEnv scenarioFs) ! 1"
    by simp
  then have p: "mainPoints scenarioEnv scenarioFs ! 1 =
      (initial (scenarioFs(novalid_txt \<mapsto> [], timeout_txt \<mapsto> [])) [])\<lparr>probes := [sampleUrl]\<rparr>"
    unfolding scenario_points by simp
  have s: "checkUrl (net alwaysStalls h) url = None" for h url
    by (simp add: alwaysStalls_def stallAfter_def checkUrl_def fetchWithTimeout_def res_ok_def)
  have m: "main alwaysStalls scenarioFs =
     (None, (initial (scenarioFs(novalid_txt \<mapsto> [], timeout_txt \<mapsto> [])) [])
              \<lparr>probes := [sampleUrl]\<rparr>)"
    by (simp add: main_def scenario_files parseList_samples serverBody_def walletBody_def
          buildUrl_samples s initial_def no_write_errors)
  show ?thesis
    unfolding p m by (simp add: countersMatch_def initial_def)
qed

text \<open>
  When the line of a valid server cannot be appended, the exception ends the run with exit
  code 1 after one probe, with nothing counted and \<^verbatim>\<open>valid.txt\<close> not written.
\<close>

lemma append_failure_run:
  "main alwaysValidReadOnly scenarioFs =
     (Some 1, (initial (scenarioFs(novalid_txt \<mapsto> [], timeout_txt \<mapsto> [])) [])
                \<lparr>probes := [sampleUrl]\<rparr>)"
proof -
  have d: "disk alwaysValidReadOnly = validTxtReadOnly"
    by (simp add: alwaysValidReadOnly_def)
  show ?thesis
    by (simp add: main_def scenario_files parseList_samples serverBody_def walletBody_def
          buildUrl_samples alwaysValid_probe initial_def d truncateBoth_def
          writeFile_def appendFile_def written_def validTxtReadOnly_def)
qed

text \<open>
  Claim C10. When \<^verbatim>\<open>servers.txt\<close> or \<^verbatim>\<open>wallets.txt\<close> is missing, or one of the two lists is
  empty after trimming and dropping blank lines, \<^verbatim>\<open>main\<close> exits with code 1 and leaves every
  file as it was: \<^verbatim>\<open>novalid.txt\<close> and \<^verbatim>\<open>timeout.txt\<close> are not truncated, \<^verbatim>\<open>valid.txt\<close> is not
  changed, and no probe is issued.
\<close>

theorem setup_failure_touches_nothing:
  assumes "fs SERVERS_FILE = None \<or> fs WALLETS_FILE = None \<or>
           (\<exists>raw. fs SERVERS_FILE = Some raw \<and> parseList raw = []) \<or>
           (\<exists>raw. fs WALLETS_FILE = Some raw \<and> parseList raw = [])"
  shows "fst (main env fs) = Some 1 \<and> files (snd (main env fs)) = fs
         \<and> probes (snd (main env fs)) = []"
  using assms by (auto simp: main_def initial_def Let_def split: option.splits)

theorem setup_failure_touches_nothing_witness:
  "fst (main alwaysValid [novalid_txt \<mapsto> ascii ''old'']) = Some 1 \<and>
   files (snd (main alwaysValid [novalid_txt \<mapsto> ascii ''old''])) = [novalid_txt \<mapsto> ascii ''old''] \<and>
   fst (main alwaysValid [SERVERS_FILE \<mapsto> ascii ''a.example'', WALLETS_FILE \<mapsto> [32, 10],
                          timeout_txt \<mapsto> ascii ''old'']) = Some 1 \<and>
   files (snd (main alwaysValid [SERVERS_FILE \<mapsto> ascii ''a.example'', WALLETS_FILE \<mapsto> [32, 10],
                          timeout_txt \<mapsto> ascii ''old'']))
     = [SERVERS_FILE \<mapsto> ascii ''a.example'', WALLETS_FILE \<mapsto> [32, 10], timeout_txt \<mapsto> ascii ''old'']"
proof -
  have "parseList [32, 10] = []"
    by code_simp
  then show ?thesis
    using setup_failure_touches_nothing [of "[novalid_txt \<mapsto> ascii ''old'']" alwaysValid]
      setup_failure_touches_nothing
        [of "[SERVERS_FILE \<mapsto> ascii ''a.example'', WALLETS_FILE \<mapsto> [32, 10],
              timeout_txt \<mapsto> ascii ''old'']" alwaysValid]
    by simp
qed

subsection \<open>Lines written and read back\<close>

lemma split_LF: "String_split (10 # t) = [] # String_split t"
  by (cases t) simp_all

lemma split_Cons2:
  "c \<noteq> 10 \<Longrightarrow> \<not> (c = 13 \<and> d = 10) \<Longrightarrow>
     String_split (c # d # ds) = consLine c (String_split (d # ds))"
  by auto

lemma split_ends_LF:
  "\<exists>L. L \<noteq> [] \<and> String_split (xs @ [10]) = L @ [[]]"
proof (induction xs rule: String_split.induct)
  case 1
  show ?case by (simp add: exI [of _ "[[]]"])
next
  case (2 c)
  show ?case
    by (cases "c = 10 \<or> c = 13") (auto simp: consLine_def)
next
  case (3 c d ds)
  show ?case
  proof (cases "c = 10")
    case True
    from "3.IH"(1) [OF True] obtain L where "L \<noteq> []" "String_split ((d # ds) @ [10]) = L @ [[]]"
      by blast
    with True show ?thesis
      by (auto intro!: exI [of _ "[] # L"])
  next
    case nl: False
    show ?thesis
    proof (cases "c = 13 \<and> d = 10")
      case True
      from "3.IH"(2) [OF nl True] obtain L where "L \<noteq> []" "String_split (ds @ [10]) = L @ [[]]"
        by blast
      with nl True show ?thesis
        by (auto intro!: exI [of _ "[] # L"])
    next
      case False
      from "3.IH"(3) [OF nl False] obtain L where L: "L \<noteq> []"
        "String_split ((d # ds) @ [10]) = L @ [[]]"
        by blast
      then obtain l L' where "L = l # L'" by (cases L) auto
      with L nl False show ?thesis
        by (auto simp: consLine_def intro!: exI [of _ "(c # l) # L'"])
    qed
  qed
qed

lemma consLine_append: "L \<noteq> [] \<Longrightarrow> consLine c (L @ M) = consLine c L @ M"
  by (cases L) (auto simp: consLine_def)

lemma split_append_LF:
  "String_split (xs @ 10 # t) = butlast (String_split (xs @ [10])) @ String_split t"
proof (induction xs rule: String_split.induct)
  case 1
  show ?case by (simp add: split_LF)
next
  case (2 c)
  show ?case
    by (cases "c = 10 \<or> c = 13") (auto simp: split_LF consLine_def)
next
  case (3 c d ds)
  obtain L where L: "L \<noteq> []" "String_split ((d # ds) @ [10]) = L @ [[]]"
    using split_ends_LF by blast
  show ?case
  proof (cases "c = 10")
    case True
    with "3.IH"(1) [OF True] L show ?thesis
      by simp
  next
    case nl: False
    show ?thesis
    proof (cases "c = 13 \<and> d = 10")
      case True
      obtain M where M: "M \<noteq> []" "String_split (ds @ [10]) = M @ [[]]"
        using split_ends_LF by blast
      with nl True "3.IH"(2) [OF nl True] show ?thesis
        by simp
    next
      case False
      have "String_split ((c # d # ds) @ 10 # t) = consLine c (String_split ((d # ds) @ 10 # t))"
        using split_Cons2 [OF nl False] by simp
      also have "\<dots> = consLine c (L @ String_split t)"
        using "3.IH"(3) [OF nl False] L by simp
      also have "\<dots> = consLine c L @ String_split t"
        using L(1) by (rule consLine_append)
      also have "consLine c L = butlast (consLine c (L @ [[]]))"
        using L(1) by (simp add: consLine_append)
      also have "consLine c (L @ [[]]) = String_split ((c # d # ds) @ [10])"
        using split_Cons2 [OF nl False] L(2) by simp
      finally show ?thesis .
    qed
  qed
qed

lemma split_no_LF: "l \<in> set (String_split s) \<Longrightarrow> 10 \<notin> set l"
proof (induction s arbitrary: l rule: String_split.induct)
  case 1
  then show ?case by simp
next
  case (2 c)
  then show ?case by (auto split: if_splits)
next
  case (3 c d ds)
  show ?case
  proof (cases "c = 10 \<or> (c = 13 \<and> d = 10)")
    case True
    with "3.prems" "3.IH"(1,2) show ?thesis
      by (auto split: if_splits)
  next
    case False
    then have nl: "c \<noteq> 10" and ncr: "\<not> (c = 13 \<and> d = 10)" by auto
    from "3.prems" False have "l \<in> set (consLine c (String_split (d # ds)))"
      by auto
    then show ?thesis
      using "3.IH"(3) [OF nl ncr] nl
      by (cases "String_split (d # ds)") (auto simp: consLine_def)
  qed
qed

lemma split_clean_line:
  "s \<noteq> [] \<Longrightarrow> 10 \<notin> set s \<Longrightarrow> last s \<noteq> 13 \<Longrightarrow> String_split (s @ [10]) = [s, []]"
proof (induction s rule: String_split.induct)
  case 1
  then show ?case by simp
next
  case (2 c)
  then show ?case by (simp add: consLine_def)
next
  case (3 c d ds)
  then have nl: "c \<noteq> 10" and ncr: "\<not> (c = 13 \<and> d = 10)" by auto
  from "3.prems" have "String_split ((d # ds) @ [10]) = [d # ds, []]"
    by (intro "3.IH"(3) [OF nl ncr]) auto
  with nl ncr show ?case by (simp add: consLine_def)
qed


lemma trim_ends:
  assumes "String_trim s \<noteq> []"
  shows "\<not> isTrimmed (hd (String_trim s)) \<and> \<not> isTrimmed (last (String_trim s))"
proof -
  define t where "t = dropWhile isTrimmed s"
  define u where "u = dropWhile isTrimmed (rev t)"
  have r: "String_trim s = rev u" by (simp add: String_trim_def t_def u_def)
  with assms have u: "u \<noteq> []" by simp
  then have hu: "\<not> isTrimmed (hd u)"
    unfolding u_def by (rule hd_dropWhile)
  from u have t: "t \<noteq> []" by (auto simp: u_def)
  then have ht: "\<not> isTrimmed (hd t)"
    unfolding t_def by (rule hd_dropWhile)
  have "rev t = takeWhile isTrimmed (rev t) @ u"
    by (simp add: u_def)
  then have "last (rev t) = last u"
    using u by (metis last_appendR)
  with t have "last u = hd t"
    by (simp add: last_rev)
  with hu ht u show ?thesis
    by (simp add: r hd_rev last_rev)
qed

lemma trim_subset: "set (String_trim s) \<subseteq> set s"
proof -
  have "set (dropWhile isTrimmed xs) \<subseteq> set xs" for xs :: jsstring
    by (auto dest: set_dropWhileD)
  from this [of "rev (dropWhile isTrimmed s)"] this [of s] show ?thesis
    by (auto simp: String_trim_def)
qed

lemma trim_clean:
  assumes "s \<noteq> []" and "\<not> isTrimmed (hd s)" and "\<not> isTrimmed (last s)"
  shows "String_trim s = s"
proof -
  from assms(1,2) have "dropWhile isTrimmed s = s"
    by (cases s) auto
  moreover from assms(1,3) have "dropWhile isTrimmed (rev s) = rev s"
    by (cases "rev s") (auto simp: last_rev [symmetric] hd_rev)
  ultimately show ?thesis by (simp add: String_trim_def)
qed

text \<open>An entry of a list read from a file: not empty, on one line, with nothing to trim.\<close>

lemma parseList_entry:
  assumes "s \<in> set (parseList raw)"
  shows "s \<noteq> [] \<and> 10 \<notin> set s \<and> \<not> isTrimmed (hd s) \<and> \<not> isTrimmed (last s)"
proof -
  from assms obtain l where l: "l \<in> set (String_split raw)" and s: "s = String_trim l" "s \<noteq> []"
    by (auto simp: parseList_def)
  from split_no_LF [OF l] trim_subset [of l] s(1) have "10 \<notin> set s" by auto
  with s trim_ends [of l] show ?thesis by simp
qed

lemma parseList_append_line:
  assumes c: "c = [] \<or> last c = 10"
    and s: "s \<noteq> []" "10 \<notin> set s" "\<not> isTrimmed (hd s)" "\<not> isTrimmed (last s)"
  shows "parseList (c @ s @ [10]) = parseList c @ [s]"
proof -
  have cr: "last s \<noteq> 13"
    using s(4) by (auto simp: isTrimmed_def)
  have line: "String_split (s @ [10]) = [s, []]"
    using s(1,2) cr by (rule split_clean_line)
  have t: "String_trim s = s"
    using s(1,3,4) by (rule trim_clean)
  have e: "String_trim [] = []"
    by (simp add: String_trim_def)
  show ?thesis
  proof (cases "c = []")
    case True
    with line t e s(1) show ?thesis
      by (simp add: parseList_def)
  next
    case False
    with c obtain c' where c': "c = c' @ [10]"
      by (metis append_butlast_last_id)
    obtain L where L: "String_split (c' @ [10]) = L @ [[]]"
      using split_ends_LF by blast
    have "String_split (c @ s @ [10]) = butlast (String_split (c' @ [10])) @ String_split (s @ [10])"
      unfolding c' using split_append_LF [of c' "s @ [10]"] by simp
    with L line have "String_split (c @ s @ [10]) = L @ [s, []]"
      by simp
    with L t e s(1) show ?thesis
      by (simp add: parseList_def c')
  qed
qed

lemma appended_valid_txt:
  "appended fs valid_txt s valid_txt = Some (case fs valid_txt of None \<Rightarrow> s | Some c \<Rightarrow> c @ s)"
  "f \<noteq> valid_txt \<Longrightarrow> appended fs f s valid_txt = fs valid_txt"
  by (simp_all add: appended_def)

lemma walletBody_inSync:
  assumes "inSync st" and "server \<in> set (parseList raw)"
  shows "inSync (fst (walletBody env server wallet st))"
proof (cases rule: walletBody_cases
                [where server = server and wallet = wallet and env = env and st = st])
  case (noUrl err)
  with assms(1) show ?thesis by simp
next
  case (stalled url)
  with assms(1) show ?thesis by (auto simp: inSync_def split: option.splits)
next
  case (unwritten url err)
  with assms(1) show ?thesis by (auto simp: inSync_def split: option.splits)
next
  case (foundNovalid url st1 fs' line)
  with assms(1) show ?thesis by (auto simp: inSync_def appended_valid_txt split: option.splits)
next
  case (foundTimeout url st1 fs' line)
  with assms(1) show ?thesis by (auto simp: inSync_def appended_valid_txt split: option.splits)
next
  case (foundValid url st1 fs')
  note e = parseList_entry [OF assms(2)]
  show ?thesis
  proof (cases "files st valid_txt")
    case None
    with assms(1) have "validList st = []" by (simp add: inSync_def)
    moreover have "parseList ([] @ server @ [10]) = parseList [] @ [server]"
      using e by (intro parseList_append_line) auto
    moreover have "parseList [] = []" by (simp add: parseList_def String_trim_def)
    ultimately show ?thesis
      using foundValid None by (simp add: inSync_def appended_valid_txt)
  next
    case (Some c)
    with assms(1) have c: "c = [] \<or> last c = 10" and v: "validList st = parseList c"
      by (simp_all add: inSync_def)
    have "parseList (c @ server @ [10]) = parseList c @ [server]"
      using c e by (intro parseList_append_line) auto
    with v show ?thesis
      using foundValid Some by (simp add: inSync_def appended_valid_txt)
  qed
qed

lemma walletLoop_inSync:
  "inSync st \<Longrightarrow> server \<in> set (parseList raw) \<Longrightarrow>
     inSync (fst (walletLoop env server ws st))"
proof (induction ws arbitrary: st)
  case Nil
  then show ?case by simp
next
  case (Cons w ws)
  obtain st' c where b: "walletBody env server w st = (st', c)"
    by (cases "walletBody env server w st")
  with walletBody_inSync [OF Cons.prems, of env w] have "inSync st'"
    by simp
  with Cons.IH [of st'] Cons.prems(2) b show ?case
    by (cases c) auto
qed

lemma serverBody_inSync:
  "inSync st \<Longrightarrow> server \<in> set (parseList raw) \<Longrightarrow>
     inSync (fst (serverBody env wallets server st))"
  using walletLoop_inSync [of st server raw env wallets]
  by (auto simp: serverBody_def split: prod.splits completion.splits)

lemma serverLoop_inSync:
  "inSync st \<Longrightarrow> set ss \<subseteq> set (parseList raw) \<Longrightarrow>
     inSync (fst (serverLoop env wallets ss st))"
proof (induction ss arbitrary: st)
  case Nil
  then show ?case by simp
next
  case (Cons s ss)
  obtain st' c where b: "serverBody env wallets s st = (st', c)"
    by (cases "serverBody env wallets s st")
  with serverBody_inSync [OF Cons.prems(1), of s raw env wallets] Cons.prems(2)
  have "inSync st'"
    by simp
  with Cons.IH [of st'] Cons.prems(2) b show ?case
    by (cases c) auto
qed

lemma truncateBoth_valid_txt: "fst (truncateBoth d fs) valid_txt = fs valid_txt"
  by (simp add: truncateBoth_def writeFile_def written_def split: write_outcome.splits)

text \<open>
  Round trip, where it holds. If \<^verbatim>\<open>valid.txt\<close> is absent, empty or ends with a line feed when
  \<^verbatim>\<open>main\<close> starts, then in the state the run leaves, however it ends, every server of the
  valid list, so every server found valid during the run, is an entry of the list that
  \<^verbatim>\<open>valid.txt\<close> reads back as, which is the list the next run loads and skips.
\<close>

lemma valid_txt_round_trip:
  assumes "case fs valid_txt of None \<Rightarrow> True | Some c \<Rightarrow> c = [] \<or> last c = 10"
  shows "set (validList (snd (main env fs)))
           \<subseteq> set (case files (snd (main env fs)) valid_txt of
                    None \<Rightarrow> []
                  | Some c \<Rightarrow> parseList c)"
proof -
  have i: "inSync (initial (fst (truncateBoth (disk env) fs))
                     (case fs valid_txt of None \<Rightarrow> [] | Some existing \<Rightarrow> parseList existing))"
    using assms by (auto simp: inSync_def initial_def truncateBoth_valid_txt split: option.splits)
  have s: "inSync st \<Longrightarrow> set (validList st)
             \<subseteq> set (case files st valid_txt of None \<Rightarrow> [] | Some c \<Rightarrow> parseList c)" for st
    by (auto simp: inSync_def split: option.splits)
  show ?thesis
  proof (cases env fs rule: main_cases)
    case early
    then show ?thesis by (simp add: initial_def)
  next
    case (truncation fs' vl)
    with i have "inSync (snd (main env fs))" by auto
    then show ?thesis by (rule s)
  next
    case (loop wallets serversRaw fs' vl)
    have "snd (main env fs) = fst (serverLoop env wallets (parseList serversRaw) (initial fs' vl))"
      unfolding loop(3)
      by (cases "serverLoop env wallets (parseList serversRaw) (initial fs' vl)";
          cases "snd (serverLoop env wallets (parseList serversRaw) (initial fs' vl))") simp_all
    with serverLoop_inSync [of "initial fs' vl" "parseList serversRaw" serversRaw env wallets]
      i loop(1,2)
    have "inSync (snd (main env fs))" by simp
    then show ?thesis by (rule s)
  qed
qed

lemma unterminated_lists:
  "parseList (ascii ''x.example'') = [ascii ''x.example'']"
  "parseList (ascii ''x.example'' @ ascii ''a.example'' @ [10]) = [ascii ''x.examplea.example'']"
  by code_simp+

lemma unterminated_first_run:
  "main alwaysValid unterminatedFs =
     (Some 0,
      \<lparr>files = unterminatedFs(novalid_txt \<mapsto> [], timeout_txt \<mapsto> [],
                             valid_txt \<mapsto> ascii ''x.example'' @ ascii ''a.example'' @ [10]),
       validList = [ascii ''x.example'', ascii ''a.example''],
       stats_valid = 1, stats_novalid = 0, stats_timeout = 0,
       probes = [sampleUrl]\<rparr>)"
proof -
  have f: "unterminatedFs SERVERS_FILE = Some (ascii ''a.example'' @ [10])"
    "unterminatedFs WALLETS_FILE = Some (ascii ''W1'' @ [10])"
    "unterminatedFs valid_txt = Some (ascii ''x.example'')"
    by (simp_all add: unterminatedFs_def)
  have n: "ascii ''a.example'' \<noteq> ascii ''x.example''"
    by (simp add: ascii_def)
  show ?thesis
    by (simp add: main_def f parseList_samples unterminated_lists serverBody_def walletBody_def
          buildUrl_samples alwaysValid_probe initial_def no_write_errors appended_def n)
qed

text \<open>
  Claim C7, at an input where the code breaks it. \<^verbatim>\<open>valid.txt\<close> holds \<^verbatim>\<open>x.example\<close> with no
  line ending. The first run finds \<^verbatim>\<open>a.example\<close> valid and appends its line, which joins the
  unterminated one. The file then reads back as the single entry \<^verbatim>\<open>x.examplea.example\<close>; the
  second run, on the files the first run left, does not skip \<^verbatim>\<open>a.example\<close>: it probes it again
  and appends it a second time. Both runs exit with code 0.
\<close>

theorem unterminated_valid_txt_not_skipped:
  "ascii ''a.example'' \<in> set (validList (snd (main alwaysValid unterminatedFs))) \<and>
   files (snd (main alwaysValid unterminatedFs)) valid_txt
     = Some (ascii ''x.examplea.example'' @ [10]) \<and>
   parseList (ascii ''x.examplea.example'' @ [10]) = [ascii ''x.examplea.example''] \<and>
   probes (snd (main alwaysValid (files (snd (main alwaysValid unterminatedFs))))) = [sampleUrl] \<and>
   files (snd (main alwaysValid (files (snd (main alwaysValid unterminatedFs))))) valid_txt
     = Some (ascii ''x.examplea.example'' @ [10] @ ascii ''a.example'' @ [10]) \<and>
   fst (main alwaysValid unterminatedFs) = Some 0 \<and>
   fst (main alwaysValid (files (snd (main alwaysValid unterminatedFs)))) = Some 0"
proof -
  have a: "ascii ''x.example'' @ ascii ''a.example'' @ [10] = ascii ''x.examplea.example'' @ [10]"
    by (simp add: ascii_def)
  have l: "parseList (ascii ''x.examplea.example'' @ [10]) = [ascii ''x.examplea.example'']"
    using unterminated_lists(2) by (simp add: a)
  have f: "unterminatedFs SERVERS_FILE = Some (ascii ''a.example'' @ [10])"
    "unterminatedFs WALLETS_FILE = Some (ascii ''W1'' @ [10])"
    by (simp_all add: unterminatedFs_def)
  have n: "ascii ''a.example'' \<noteq> ascii ''x.examplea.example''"
    by (simp add: ascii_def)
  have second: "main alwaysValid (files (snd (main alwaysValid unterminatedFs))) =
     (Some 0,
      \<lparr>files = (files (snd (main alwaysValid unterminatedFs)))
                  (novalid_txt \<mapsto> [], timeout_txt \<mapsto> [],
                   valid_txt \<mapsto> ascii ''x.examplea.example'' @ [10] @ ascii ''a.example'' @ [10]),
       validList = [ascii ''x.examplea.example'', ascii ''a.example''],
       stats_valid = 1, stats_novalid = 0, stats_timeout = 0,
       probes = [sampleUrl]\<rparr>)"
    unfolding unterminated_first_run
    by (simp add: main_def f a l parseList_samples serverBody_def walletBody_def
          buildUrl_samples alwaysValid_probe initial_def no_write_errors appended_def n)
  show ?thesis
    unfolding second unfolding unterminated_first_run
    by (simp add: a l)
qed

end
